theory Spec2Isabelle
  imports Complex_Main "HOL-Library.Word" "HOL-Library.Monad_Syntax"
begin

section \<open>Buffers, machine integers and counted loops\<close>

text \<open>
  The kernels of \<^verbatim>\<open>ndarray_backend_cpu.cc\<close> work on \<^verbatim>\<open>AlignedArray\<close> values: a
  pointer to \<^verbatim>\<open>size\<close> scalars.  An array is modelled by the list of its elements, so
  \<^verbatim>\<open>a.size\<close> is \<open>length a\<close>.  Arrays are passed by value and the updated array is
  returned, so two parameters always denote two different buffers.

  The scalar type \<^verbatim>\<open>scalar_t\<close> (a 32-bit float) is left abstract: the kernels are
  polymorphic in a type that only has to provide the operators the code uses, and no
  algebraic law (associativity, commutativity, ...) is assumed of them.  Whatever is proved
  therefore holds for every interpretation of the operators, floating point included.
  Functions of the C library (\<^verbatim>\<open>pow\<close>, \<^verbatim>\<open>log\<close>, \<^verbatim>\<open>exp\<close>, \<^verbatim>\<open>tanh\<close>) and the
  comparison \<^verbatim>\<open>==\<close> of floats are parameters of the kernels that use them.

  Every kernel returns an \<open>option\<close>: \<open>None\<close> stands for undefined behaviour of the C++
  code, which is a read or write outside a buffer, an overflow of signed 32-bit
  arithmetic, or a pointer that is not aligned as \<^verbatim>\<open>__builtin_assume_aligned\<close> states.
\<close>

definition load :: "'a list \<Rightarrow> nat \<Rightarrow> 'a option" where
  "load xs i = (if i < length xs then Some (xs ! i) else None)"

definition store :: "'a list \<Rightarrow> nat \<Rightarrow> 'a \<Rightarrow> 'a list option" where
  "store xs i v = (if i < length xs then Some (xs[i := v]) else None)"

text \<open>Arithmetic of \<^verbatim>\<open>uint32_t\<close> and of \<^verbatim>\<open>size_t\<close> (64 bits) wraps around.\<close>

definition u32 :: "nat \<Rightarrow> nat" where
  "u32 x = x mod 2 ^ 32"

definition u64 :: "nat \<Rightarrow> nat" where
  "u64 x = x mod 2 ^ 64"

text \<open>
  Elements of a \<^verbatim>\<open>std::vector<int32_t>\<close> are 32-bit words read as two's complement.
  Arithmetic on \<^verbatim>\<open>int32_t\<close> is undefined when the result is not representable.
\<close>

type_synonym int32 = "32 word"

definition i32 :: "int \<Rightarrow> int32 option" where
  "i32 x = (if - (2 ^ 31) \<le> x \<and> x < 2 ^ 31 then Some (word_of_int x) else None)"

text \<open>
  A loop \<^verbatim>\<open>for (i = lo; i < hi; i++) body\<close> whose body assigns neither \<^verbatim>\<open>i\<close> nor the
  bound runs the body for \<open>lo, lo + 1, ..., hi - 1\<close> in turn and stops at the first
  undefined step.
\<close>

primrec for_each :: "nat list \<Rightarrow> (nat \<Rightarrow> 's \<Rightarrow> 's option) \<Rightarrow> 's \<Rightarrow> 's option" where
  "for_each [] body s = Some s"
| "for_each (i # is) body s = (case body i s of None \<Rightarrow> None | Some s' \<Rightarrow> for_each is body s')"

definition for_loop :: "nat \<Rightarrow> nat \<Rightarrow> (nat \<Rightarrow> 's \<Rightarrow> 's option) \<Rightarrow> 's \<Rightarrow> 's option" where
  "for_loop lo hi body s = for_each [lo..<hi] body s"

section \<open>The index walker and the view transfers\<close>

text \<open>
  \<^verbatim>\<open>getLocation\<close>: the product \<^verbatim>\<open>strides[i] * indices_vector[i]\<close> is computed in
  \<^verbatim>\<open>int32_t\<close>, converted to \<^verbatim>\<open>size_t\<close> and added to \<^verbatim>\<open>loc\<close> modulo \<open>2 ^ 64\<close>.
\<close>

definition getLocation :: "int32 list \<Rightarrow> nat \<Rightarrow> int32 list \<Rightarrow> nat option" where
  "getLocation strides offset indices_vector =
     for_loop 0 (length indices_vector) (\<lambda>i loc. do {
       s \<leftarrow> load strides i;
       d \<leftarrow> load indices_vector i;
       prod \<leftarrow> i32 (sint s * sint d);
       Some (nat ((int loc + sint prod) mod 2 ^ 64))
     }) offset"

text \<open>
  \<^verbatim>\<open>updateIndices\<close> scans from the last axis towards the first; \<open>updateIndices_from\<close>
  is the loop at position \<open>i\<close>.  The scan starts at \<^verbatim>\<open>indices_vector.size() - 1\<close>,
  a \<^verbatim>\<open>size_t\<close>, which is \<open>2 ^ 64 - 1\<close> for an empty vector.
\<close>

function updateIndices_from :: "int32 list \<Rightarrow> int32 list \<Rightarrow> nat \<Rightarrow> int32 list option" where
  "updateIndices_from shape indices_vector i =
     (if i < length indices_vector \<and> i < length shape then
        (case i32 (sint (shape ! i) - 1) of
           None \<Rightarrow> None
         | Some last_idx \<Rightarrow>
             if sint (indices_vector ! i) < sint last_idx then
               (case i32 (sint (indices_vector ! i) + 1) of
                  None \<Rightarrow> None
                | Some v \<Rightarrow> Some (indices_vector[i := v]))
             else if i = 0 then Some indices_vector
             else updateIndices_from shape (indices_vector[i := 0]) (i - 1))
      else None)"
  by pat_completeness auto
termination
  by (relation "measure (\<lambda>(shape, indices_vector, i). i)") auto

declare updateIndices_from.simps [simp del]

definition updateIndices :: "int32 list \<Rightarrow> int32 list \<Rightarrow> int32 list option" where
  "updateIndices shape indices_vector =
     updateIndices_from shape indices_vector (u64 (length indices_vector + (2 ^ 64 - 1)))"

definition Compact :: "'a list \<Rightarrow> 'a list \<Rightarrow> int32 list \<Rightarrow> int32 list \<Rightarrow> nat \<Rightarrow> 'a list option" where
  "Compact a out shape strides offset =
     map_option fst
       (for_loop 0 (length out) (\<lambda>i (out, indices_vector). do {
          loc \<leftarrow> getLocation strides offset indices_vector;
          v \<leftarrow> load a loc;
          out \<leftarrow> store out i v;
          indices_vector \<leftarrow> updateIndices shape indices_vector;
          Some (out, indices_vector)
        }) (out, replicate (length shape) 0))"

definition EwiseSetitem :: "'a list \<Rightarrow> 'a list \<Rightarrow> int32 list \<Rightarrow> int32 list \<Rightarrow> nat \<Rightarrow> 'a list option" where
  "EwiseSetitem a out shape strides offset =
     map_option fst
       (for_loop 0 (length a) (\<lambda>i (out, indices_vector). do {
          loc \<leftarrow> getLocation strides offset indices_vector;
          v \<leftarrow> load a i;
          out \<leftarrow> store out loc v;
          indices_vector \<leftarrow> updateIndices shape indices_vector;
          Some (out, indices_vector)
        }) (out, replicate (length shape) 0))"

definition ScalarSetitem :: "nat \<Rightarrow> 'a \<Rightarrow> 'a list \<Rightarrow> int32 list \<Rightarrow> int32 list \<Rightarrow> nat \<Rightarrow> 'a list option" where
  "ScalarSetitem sz val out shape strides offset =
     map_option fst
       (for_loop 0 sz (\<lambda>i (out, indices_vector). do {
          loc \<leftarrow> getLocation strides offset indices_vector;
          out \<leftarrow> store out loc val;
          indices_vector \<leftarrow> updateIndices shape indices_vector;
          Some (out, indices_vector)
        }) (out, replicate (length shape) 0))"

section \<open>Elementwise kernels\<close>

text \<open>\<^verbatim>\<open>scalar_t(c)\<close> of a \<^verbatim>\<open>bool\<close> is \<open>1\<close> or \<open>0\<close>; \<^verbatim>\<open>std::max(x, y)\<close> is
  \<^verbatim>\<open>(x < y) ? y : x\<close>.\<close>

definition scalar_of_bool :: "bool \<Rightarrow> 'a::{zero,one}" where
  "scalar_of_bool c = (if c then 1 else 0)"

definition std_max :: "'a::ord \<Rightarrow> 'a \<Rightarrow> 'a" where
  "std_max x y = (if x < y then y else x)"

definition EwiseAdd :: "'a::plus list \<Rightarrow> 'a list \<Rightarrow> 'a list \<Rightarrow> 'a list option" where
  "EwiseAdd a b out =
     for_loop 0 (length a) (\<lambda>i out. do {
       x \<leftarrow> load a i; y \<leftarrow> load b i; store out i (x + y) }) out"

definition ScalarAdd :: "'a::plus list \<Rightarrow> 'a \<Rightarrow> 'a list \<Rightarrow> 'a list option" where
  "ScalarAdd a val out =
     for_loop 0 (length a) (\<lambda>i out. do {
       x \<leftarrow> load a i; store out i (x + val) }) out"

definition EwiseMul :: "'a::times list \<Rightarrow> 'a list \<Rightarrow> 'a list \<Rightarrow> 'a list option" where
  "EwiseMul a b out =
     for_loop 0 (length a) (\<lambda>i out. do {
       x \<leftarrow> load a i; y \<leftarrow> load b i; store out i (x * y) }) out"

definition ScalarMul :: "'a::times list \<Rightarrow> 'a \<Rightarrow> 'a list \<Rightarrow> 'a list option" where
  "ScalarMul a val out =
     for_loop 0 (length a) (\<lambda>i out. do {
       x \<leftarrow> load a i; store out i (x * val) }) out"

definition EwiseDiv :: "'a::inverse list \<Rightarrow> 'a list \<Rightarrow> 'a list \<Rightarrow> 'a list option" where
  "EwiseDiv a b out =
     for_loop 0 (length a) (\<lambda>i out. do {
       x \<leftarrow> load a i; y \<leftarrow> load b i; store out i (x / y) }) out"

definition ScalarDiv :: "'a::inverse list \<Rightarrow> 'a \<Rightarrow> 'a list \<Rightarrow> 'a list option" where
  "ScalarDiv a val out =
     for_loop 0 (length a) (\<lambda>i out. do {
       x \<leftarrow> load a i; store out i (x / val) }) out"

definition ScalarPower :: "('a \<Rightarrow> 'a \<Rightarrow> 'a) \<Rightarrow> 'a list \<Rightarrow> 'a \<Rightarrow> 'a list \<Rightarrow> 'a list option" where
  "ScalarPower powf a val out =
     for_loop 0 (length a) (\<lambda>i out. do {
       x \<leftarrow> load a i; store out i (powf x val) }) out"

definition EwiseMaximum :: "'a::ord list \<Rightarrow> 'a list \<Rightarrow> 'a list \<Rightarrow> 'a list option" where
  "EwiseMaximum a b out =
     for_loop 0 (length a) (\<lambda>i out. do {
       x \<leftarrow> load a i; y \<leftarrow> load b i; store out i (std_max x y) }) out"

definition ScalarMaximum :: "'a::ord list \<Rightarrow> 'a \<Rightarrow> 'a list \<Rightarrow> 'a list option" where
  "ScalarMaximum a val out =
     for_loop 0 (length a) (\<lambda>i out. do {
       x \<leftarrow> load a i; store out i (std_max x val) }) out"

definition EwiseEq :: "('a \<Rightarrow> 'a \<Rightarrow> bool) \<Rightarrow> 'a::{zero,one} list \<Rightarrow> 'a list \<Rightarrow> 'a list \<Rightarrow> 'a list option" where
  "EwiseEq eq a b out =
     for_loop 0 (length a) (\<lambda>i out. do {
       x \<leftarrow> load a i; y \<leftarrow> load b i; store out i (scalar_of_bool (eq x y)) }) out"

definition ScalarEq :: "('a \<Rightarrow> 'a \<Rightarrow> bool) \<Rightarrow> 'a::{zero,one} list \<Rightarrow> 'a \<Rightarrow> 'a list \<Rightarrow> 'a list option" where
  "ScalarEq eq a val out =
     for_loop 0 (length a) (\<lambda>i out. do {
       x \<leftarrow> load a i; store out i (scalar_of_bool (eq x val)) }) out"

definition EwiseGe :: "'a::{ord,zero,one} list \<Rightarrow> 'a list \<Rightarrow> 'a list \<Rightarrow> 'a list option" where
  "EwiseGe a b out =
     for_loop 0 (length a) (\<lambda>i out. do {
       x \<leftarrow> load a i; y \<leftarrow> load b i; store out i (scalar_of_bool (x \<ge> y)) }) out"

definition ScalarGe :: "'a::{ord,zero,one} list \<Rightarrow> 'a \<Rightarrow> 'a list \<Rightarrow> 'a list option" where
  "ScalarGe a val out =
     for_loop 0 (length a) (\<lambda>i out. do {
       x \<leftarrow> load a i; store out i (scalar_of_bool (x \<ge> val)) }) out"

definition EwiseLog :: "('a \<Rightarrow> 'a) \<Rightarrow> 'a list \<Rightarrow> 'a list \<Rightarrow> 'a list option" where
  "EwiseLog logf a out =
     for_loop 0 (length a) (\<lambda>i out. do {
       x \<leftarrow> load a i; store out i (logf x) }) out"

definition EwiseExp :: "('a \<Rightarrow> 'a) \<Rightarrow> 'a list \<Rightarrow> 'a list \<Rightarrow> 'a list option" where
  "EwiseExp expf a out =
     for_loop 0 (length a) (\<lambda>i out. do {
       x \<leftarrow> load a i; store out i (expf x) }) out"

definition EwiseTanh :: "('a \<Rightarrow> 'a) \<Rightarrow> 'a list \<Rightarrow> 'a list \<Rightarrow> 'a list option" where
  "EwiseTanh tanhf a out =
     for_loop 0 (length a) (\<lambda>i out. do {
       x \<leftarrow> load a i; store out i (tanhf x) }) out"

section \<open>Exceptional values of floating-point arithmetic\<close>

text \<open>
  The kernels are polymorphic in the scalar type, and what \<^verbatim>\<open>/\<close> and \<^verbatim>\<open>log\<close> return on
  exceptional operands is a property of the arithmetic, not of the kernels.  The type below
  is one such arithmetic, written after IEEE 754 (infinities, NaNs and signed zeros,
  division by zero and invalid operations) and Annex F of the C standard (\<^verbatim>\<open>log\<close>): a
  value is a finite number, the negative zero, an infinity or a NaN.  \<open>Finite 0\<close> is the
  positive zero, the scalar \<^verbatim>\<open>0.0f\<close>.  Finite results are the exact quotient and
  logarithm; rounding and overflow of finite results are not modelled.

  Division: a NaN operand, \<open>\<infinity> / \<infinity>\<close> and \<open>0 / 0\<close> give NaN; otherwise the sign of the
  result is the exclusive or of the signs of the operands, a non-zero finite dividend or an
  infinite one over a zero or finite divisor gives an infinity, and a zero or finite
  dividend over an infinite divisor gives a zero.  Comparisons with a NaN are false, and
  the two zeros compare equal.  \<^verbatim>\<open>log\<close> of a zero of either sign is \<open>-\<infinity>\<close>, of a negative
  number or of \<open>-\<infinity>\<close> it is NaN, of \<open>+\<infinity>\<close> it is \<open>+\<infinity>\<close>.
\<close>

datatype ieee = Finite real | NegZero | PosInf | NegInf | NaN

fun sign_bit :: "ieee \<Rightarrow> bool" where
  "sign_bit (Finite r) = (r < 0)"
| "sign_bit NegZero = True"
| "sign_bit PosInf = False"
| "sign_bit NegInf = True"
| "sign_bit NaN = False"

fun is_zero :: "ieee \<Rightarrow> bool" where
  "is_zero (Finite r) = (r = 0)"
| "is_zero NegZero = True"
| "is_zero x = False"

fun is_inf :: "ieee \<Rightarrow> bool" where
  "is_inf PosInf = True"
| "is_inf NegInf = True"
| "is_inf x = False"

fun magnitude :: "ieee \<Rightarrow> real" where
  "magnitude (Finite r) = r"
| "magnitude x = 0"

definition fdiv :: "ieee \<Rightarrow> ieee \<Rightarrow> ieee" where
  "fdiv x y =
     (if x = NaN \<or> y = NaN then NaN
      else if is_inf x \<and> is_inf y then NaN
      else if is_zero x \<and> is_zero y then NaN
      else if is_inf x \<or> is_zero y then (if sign_bit x = sign_bit y then PosInf else NegInf)
      else if is_zero x \<or> is_inf y then (if sign_bit x = sign_bit y then Finite 0 else NegZero)
      else Finite (magnitude x / magnitude y))"

fun fless :: "ieee \<Rightarrow> ieee \<Rightarrow> bool" where
  "fless NaN y = False"
| "fless x NaN = False"
| "fless PosInf y = False"
| "fless x NegInf = False"
| "fless NegInf y = True"
| "fless x PosInf = True"
| "fless x y = (magnitude x < magnitude y)"

fun feq :: "ieee \<Rightarrow> ieee \<Rightarrow> bool" where
  "feq NaN y = False"
| "feq x NaN = False"
| "feq PosInf y = (y = PosInf)"
| "feq NegInf y = (y = NegInf)"
| "feq x PosInf = False"
| "feq x NegInf = False"
| "feq x y = (magnitude x = magnitude y)"


instantiation ieee :: "{zero, inverse, ord}"
begin

definition zero_ieee :: ieee where
  "zero_ieee = Finite 0"

definition divide_ieee :: "ieee \<Rightarrow> ieee \<Rightarrow> ieee" where
  "divide_ieee x y = fdiv x y"

definition inverse_ieee :: "ieee \<Rightarrow> ieee" where
  "inverse_ieee x = fdiv (Finite 1) x"

definition less_ieee :: "ieee \<Rightarrow> ieee \<Rightarrow> bool" where
  "less_ieee x y \<longleftrightarrow> fless x y"

definition less_eq_ieee :: "ieee \<Rightarrow> ieee \<Rightarrow> bool" where
  "less_eq_ieee x y \<longleftrightarrow> fless x y \<or> feq x y"

instance ..

end

section \<open>Matrix multiplication\<close>

text \<open>The loop counters and \<^verbatim>\<open>m\<close>, \<^verbatim>\<open>n\<close>, \<^verbatim>\<open>p\<close> are \<^verbatim>\<open>uint32_t\<close>, so every index
  expression is computed modulo \<open>2 ^ 32\<close>.\<close>

definition Matmul :: "'a::{zero,plus,times} list \<Rightarrow> 'a list \<Rightarrow> 'a list \<Rightarrow> nat \<Rightarrow> nat \<Rightarrow> nat \<Rightarrow> 'a list option" where
  "Matmul a b out m n p =
     for_loop 0 m (\<lambda>i. for_loop 0 p (\<lambda>j out. do {
       out \<leftarrow> store out (u32 (i * p + j)) 0;
       for_loop 0 n (\<lambda>k out. do {
         x \<leftarrow> load a (u32 (i * n + k));
         y \<leftarrow> load b (u32 (k * p + j));
         acc \<leftarrow> load out (u32 (i * p + j));
         store out (u32 (i * p + j)) (acc + x * y)
       }) out
     })) out"

definition TILE :: nat where
  "TILE = 8"

text \<open>
  A \<^verbatim>\<open>float*\<close> argument of \<^verbatim>\<open>AlignedDot\<close> is modelled by the byte address it holds and by
  the scalars stored from that address on.  \<^verbatim>\<open>__builtin_assume_aligned(p, k)\<close> is undefined
  unless the address \<^verbatim>\<open>p\<close> is a multiple of \<open>k\<close>; here \<open>k\<close> is \<^verbatim>\<open>TILE * ELEM_SIZE\<close>, 32 bytes.
\<close>

definition ELEM_SIZE :: nat where
  "ELEM_SIZE = 4"

definition assume_aligned :: "nat \<Rightarrow> nat \<Rightarrow> bool" where
  "assume_aligned ptr k \<longleftrightarrow> ptr mod k = 0"

definition AlignedDot :: "nat \<Rightarrow> 'a::{plus,times} list \<Rightarrow> nat \<Rightarrow> 'a list \<Rightarrow> nat \<Rightarrow> 'a list \<Rightarrow> 'a list option" where
  "AlignedDot a_ptr a b_ptr b out_ptr out =
     (if assume_aligned a_ptr (TILE * ELEM_SIZE)
       \<and> assume_aligned b_ptr (TILE * ELEM_SIZE)
       \<and> assume_aligned out_ptr (TILE * ELEM_SIZE)
      then
        for_loop 0 TILE (\<lambda>i. for_loop 0 TILE (\<lambda>j. for_loop 0 TILE (\<lambda>k out. do {
          x \<leftarrow> load a (u32 (i * TILE + k));
          y \<leftarrow> load b (u32 (k * TILE + j));
          acc \<leftarrow> load out (u32 (i * TILE + j));
          store out (u32 (i * TILE + j)) (acc + x * y)
        }))) out
      else None)"

text \<open>The three parts of the body of \<^verbatim>\<open>MatmulTiled\<close>: the copy of the blocks \<open>(i, k)\<close> of
  \<^verbatim>\<open>a\<close> and \<open>(k, j)\<close> of \<^verbatim>\<open>b\<close> into \<^verbatim>\<open>tile_a\<close> and \<^verbatim>\<open>tile_b\<close>, the reduction loop over
  \<^verbatim>\<open>k\<close> that accumulates into \<^verbatim>\<open>tmp_res\<close>, and the copy of \<^verbatim>\<open>tmp_res\<close> into block
  \<open>(i, j)\<close> of \<^verbatim>\<open>out\<close>.

  The scratch tiles are \<^verbatim>\<open>std::vector<float>\<close> objects: \<^verbatim>\<open>tile_a\<close> and \<^verbatim>\<open>tile_b\<close> are
  allocated once, \<^verbatim>\<open>tmp_res\<close> once for every block \<open>(i, j)\<close>.  The addresses
  \<^verbatim>\<open>tile_a.data()\<close>, \<^verbatim>\<open>tile_b.data()\<close> and \<^verbatim>\<open>tmp_res.data()\<close> that \<^verbatim>\<open>AlignedDot\<close> receives are
  what the allocator returned; they are parameters of the model.  The allocator of
  \<^verbatim>\<open>std::vector\<close> promises the alignment of the largest scalar type (16 bytes on the usual
  64-bit targets), not the 32 bytes that \<^verbatim>\<open>AlignedDot\<close> assumes.\<close>

record scratch =
  tile_a_ptr :: nat
  tile_b_ptr :: nat
  tmp_res_ptr :: "nat \<Rightarrow> nat \<Rightarrow> nat"

definition make_tile :: "'a list \<Rightarrow> 'a list \<Rightarrow> nat \<Rightarrow> nat \<Rightarrow> nat \<Rightarrow> nat \<Rightarrow> nat \<Rightarrow>
    'a list \<times> 'a list \<Rightarrow> ('a list \<times> 'a list) option" where
  "make_tile a b n p i j k =
     for_loop 0 TILE (\<lambda>ii. for_loop 0 TILE (\<lambda>jj (tile_a, tile_b). do {
       x \<leftarrow> load a (u32 (i * n * TILE + k * TILE * TILE + ii * TILE + jj));
       tile_a \<leftarrow> store tile_a (u32 (ii * TILE + jj)) x;
       y \<leftarrow> load b (u32 (k * p * TILE + j * TILE * TILE + ii * TILE + jj));
       tile_b \<leftarrow> store tile_b (u32 (ii * TILE + jj)) y;
       Some (tile_a, tile_b)
     }))"

definition tile_mul :: "scratch \<Rightarrow> 'a::{plus,times} list \<Rightarrow> 'a list \<Rightarrow> nat \<Rightarrow> nat \<Rightarrow> nat \<Rightarrow> nat \<Rightarrow>
    'a list \<times> 'a list \<times> 'a list \<Rightarrow> ('a list \<times> 'a list \<times> 'a list) option" where
  "tile_mul alloc a b n p i j =
     for_loop 0 (n div TILE) (\<lambda>k (tile_a, tile_b, tmp_res). do {
       (tile_a, tile_b) \<leftarrow> make_tile a b n p i j k (tile_a, tile_b);
       tmp_res \<leftarrow> AlignedDot (tile_a_ptr alloc) tile_a (tile_b_ptr alloc) tile_b
                    (tmp_res_ptr alloc i j) tmp_res;
       Some (tile_a, tile_b, tmp_res)
     })"

definition write_tile :: "'a list \<Rightarrow> nat \<Rightarrow> nat \<Rightarrow> nat \<Rightarrow> 'a list \<Rightarrow> 'a list option" where
  "write_tile tmp_res p i j =
     for_loop 0 TILE (\<lambda>ii. for_loop 0 TILE (\<lambda>jj out. do {
       v \<leftarrow> load tmp_res (u32 (ii * TILE + jj));
       store out (u32 (i * p * TILE + j * TILE * TILE + ii * TILE + jj)) v
     }))"

definition MatmulTiled :: "scratch \<Rightarrow> 'a::{zero,plus,times} list \<Rightarrow> 'a list \<Rightarrow> 'a list \<Rightarrow> nat \<Rightarrow> nat \<Rightarrow> nat \<Rightarrow> 'a list option" where
  "MatmulTiled alloc a b out m n p =
     map_option (\<lambda>(tile_a, tile_b, out). out)
       (for_loop 0 (m div TILE) (\<lambda>i. for_loop 0 (p div TILE) (\<lambda>j (tile_a, tile_b, out). do {
          (tile_a, tile_b, tmp_res) \<leftarrow>
            tile_mul alloc a b n p i j (tile_a, tile_b, replicate (TILE * TILE) 0);
          out \<leftarrow> write_tile tmp_res p i j out;
          Some (tile_a, tile_b, out)
        })) (replicate (TILE * TILE) 0, replicate (TILE * TILE) 0, out))"



definition vector_scratch :: scratch where
  "vector_scratch = \<lparr>tile_a_ptr = 16, tile_b_ptr = 272, tmp_res_ptr = (\<lambda>i j. 528)\<rparr>"

section \<open>Reductions\<close>

text \<open>The outer loops advance \<^verbatim>\<open>i\<close> by \<^verbatim>\<open>reduce_size\<close> and count the runs in \<^verbatim>\<open>cnt\<close>.
  A step is taken only after a write to \<^verbatim>\<open>out->ptr[cnt]\<close> inside the buffer, so the
  loop ends (with \<^verbatim>\<open>reduce_size = 0\<close>, by running out of the buffer).\<close>

function ReduceMax_loop :: "'a::ord list \<Rightarrow> nat \<Rightarrow> nat \<Rightarrow> nat \<Rightarrow> 'a list \<Rightarrow> 'a list option" where
  "ReduceMax_loop a reduce_size i cnt out =
     (if i < length a then
        (case for_loop (i + 1) (u64 (i + reduce_size))
                (\<lambda>j max_num. do { x \<leftarrow> load a j; Some (std_max max_num x) }) (a ! i) of
           None \<Rightarrow> None
         | Some max_num \<Rightarrow>
             if cnt < length out
             then ReduceMax_loop a reduce_size (u64 (i + reduce_size)) (cnt + 1) (out[cnt := max_num])
             else None)
      else Some out)"
  by pat_completeness auto
termination
  by (relation "measure (\<lambda>(a, reduce_size, i, cnt, out). length out - cnt)") auto

declare ReduceMax_loop.simps [simp del]

definition ReduceMax :: "'a::ord list \<Rightarrow> 'a list \<Rightarrow> nat \<Rightarrow> 'a list option" where
  "ReduceMax a out reduce_size = ReduceMax_loop a reduce_size 0 0 out"

function ReduceSum_loop :: "'a::{zero,plus} list \<Rightarrow> nat \<Rightarrow> nat \<Rightarrow> nat \<Rightarrow> 'a list \<Rightarrow> 'a list option" where
  "ReduceSum_loop a reduce_size i cnt out =
     (if i < length a then
        (case for_loop i (u64 (i + reduce_size))
                (\<lambda>j sum_res. do { x \<leftarrow> load a j; Some (sum_res + x) }) 0 of
           None \<Rightarrow> None
         | Some sum_res \<Rightarrow>
             if cnt < length out
             then ReduceSum_loop a reduce_size (u64 (i + reduce_size)) (cnt + 1) (out[cnt := sum_res])
             else None)
      else Some out)"
  by pat_completeness auto
termination
  by (relation "measure (\<lambda>(a, reduce_size, i, cnt, out). length out - cnt)") auto

declare ReduceSum_loop.simps [simp del]

definition ReduceSum :: "'a::{zero,plus} list \<Rightarrow> 'a list \<Rightarrow> nat \<Rightarrow> 'a list option" where
  "ReduceSum a out reduce_size = ReduceSum_loop a reduce_size 0 0 out"

section \<open>Reference definitions\<close>

text \<open>The multi-indices of a shape in row-major order: the last axis runs fastest.\<close>

fun multi_indices :: "nat list \<Rightarrow> nat list list" where
  "multi_indices [] = [[]]"
| "multi_indices (s # ss) = concat (map (\<lambda>d. map ((#) d) (multi_indices ss)) [0..<s])"

text \<open>The location \<open>offset + \<Sum> strides[j] * idx[j]\<close> of a multi-index, over the integers.\<close>

definition location :: "int32 list \<Rightarrow> nat \<Rightarrow> nat list \<Rightarrow> int" where
  "location strides offset idx =
     int offset + (\<Sum>j < length idx. sint (strides ! j) * int (idx ! j))"

text \<open>The elements of a vector of non-negative \<^verbatim>\<open>int32_t\<close> as natural numbers.\<close>

definition to_nats :: "int32 list \<Rightarrow> nat list" where
  "to_nats v = map (\<lambda>x. nat (sint x)) v"

text \<open>A multi-index lies in a shape when it has the shape's rank and every component is
  below the size of its axis; \<open>flat_index\<close> is its position in row-major order.\<close>

definition in_shape :: "nat list \<Rightarrow> nat list \<Rightarrow> bool" where
  "in_shape ns ds \<longleftrightarrow> length ds = length ns \<and> (\<forall>j < length ns. ds ! j < ns ! j)"

fun flat_index :: "nat list \<Rightarrow> nat list \<Rightarrow> nat" where
  "flat_index (s # ss) (d # ds) = d * prod_list ss + flat_index ss ds"
| "flat_index _ _ = 0"

text \<open>\<^verbatim>\<open>EwiseSetitem(Compact(V), V)\<close> for a view \<open>V\<close> over the buffer \<open>B\<close>: the view is
  compacted into a fresh buffer, which is then written back through the view.\<close>

definition round_trip :: "'a list \<Rightarrow> 'a list \<Rightarrow> int32 list \<Rightarrow> int32 list \<Rightarrow> nat \<Rightarrow> 'a list option" where
  "round_trip B fresh shape strides offset = do {
     compact \<leftarrow> Compact B fresh shape strides offset;
     EwiseSetitem compact B shape strides offset
   }"

text \<open>A tuple is valid for a shape when every component lies in \<open>[0, shape[i])\<close>.\<close>

definition valid_indices :: "int32 list \<Rightarrow> int32 list \<Rightarrow> bool" where
  "valid_indices shape idx \<longleftrightarrow>
     length idx = length shape \<and>
     (\<forall>i < length idx. 0 \<le> sint (idx ! i) \<and> sint (idx ! i) < sint (shape ! i))"

text \<open>A sequence of cell updates: for each key \<open>k\<close> in turn, the cell \<open>W k\<close> is replaced
  by \<open>F k\<close> of its current value.  It describes what nested loops over cells leave in a
  buffer.\<close>

definition updates :: "('k \<Rightarrow> nat) \<Rightarrow> ('k \<Rightarrow> 'a \<Rightarrow> 'a) \<Rightarrow> 'k list \<Rightarrow> 'a list \<Rightarrow> 'a list" where
  "updates W F ks out = fold (\<lambda>k t. t[W k := F k (t ! W k)]) ks out"

text \<open>The cell \<open>(i, j)\<close> of a product of row-major matrices: the left fold over
  \<open>k = 0, ..., n - 1\<close> of \<open>a[i * n + k] * b[k * p + j]\<close>, starting from \<open>0\<close>; the element of
  a result at an index; the cell \<open>(i, j)\<close> of a tile product accumulated onto \<open>v\<close>.\<close>

definition matmul_cell :: "'a::{zero,plus,times} list \<Rightarrow> 'a list \<Rightarrow> nat \<Rightarrow> nat \<Rightarrow> nat \<Rightarrow> nat \<Rightarrow> 'a" where
  "matmul_cell a b n p i j = foldl (\<lambda>acc k. acc + a ! (i * n + k) * b ! (k * p + j)) 0 [0..<n]"

definition result_cell :: "'a list option \<Rightarrow> nat \<Rightarrow> 'a option" where
  "result_cell r x = (case r of None \<Rightarrow> None | Some out \<Rightarrow> load out x)"

definition tile_cell :: "'a::{plus,times} list \<Rightarrow> 'a list \<Rightarrow> 'a \<Rightarrow> nat \<Rightarrow> nat \<Rightarrow> 'a" where
  "tile_cell a b v i j = foldl (\<lambda>acc k. acc + a ! (i * TILE + k) * b ! (k * TILE + j)) v [0..<TILE]"



text \<open>The conditions on a view under which the transfers are defined: rank at least 1 and
  as many strides; positive axis sizes; every location of a multi-index inside a buffer
  of \<open>sz\<close> elements; every product \<^verbatim>\<open>strides[j] * indices_vector[j]\<close> representable in
  \<^verbatim>\<open>int32_t\<close>; and the rank, the offset and the buffer size in the range of \<^verbatim>\<open>size_t\<close>.\<close>

definition view_ok :: "nat \<Rightarrow> int32 list \<Rightarrow> int32 list \<Rightarrow> nat \<Rightarrow> bool" where
  "view_ok sz shape strides offset \<longleftrightarrow>
     1 \<le> length shape \<and> length shape < 2 ^ 64 \<and> length strides = length shape
   \<and> (\<forall>s \<in> set shape. 0 < sint s)
   \<and> offset < 2 ^ 64 \<and> sz \<le> 2 ^ 64
   \<and> (\<forall>idx \<in> set (multi_indices (to_nats shape)).
         0 \<le> location strides offset idx \<and> location strides offset idx < int sz)
   \<and> (\<forall>j < length shape. \<forall>d < to_nats shape ! j.
         - (2 ^ 31) \<le> sint (strides ! j) * int d \<and> sint (strides ! j) * int d < 2 ^ 31)"

text \<open>The state of the walker before iteration \<open>i\<close>.\<close>

definition walker_at :: "int32 list \<Rightarrow> nat \<Rightarrow> int32 list \<Rightarrow> bool" where
  "walker_at shape i idx \<longleftrightarrow>
     (i < prod_list (to_nats shape) \<longrightarrow>
        valid_indices shape idx \<and> to_nats idx = multi_indices (to_nats shape) ! i)"

section \<open>Loop rules\<close>

lemma for_each_append:
  "for_each (xs @ ys) body s =
     (case for_each xs body s of None \<Rightarrow> None | Some s' \<Rightarrow> for_each ys body s')"
  by (induction xs arbitrary: s) (auto split: option.splits)

lemma for_loop_empty: "hi \<le> lo \<Longrightarrow> for_loop lo hi body s = Some s"
  by (simp add: for_loop_def)

lemma for_loop_Suc:
  "lo \<le> hi \<Longrightarrow> for_loop lo (Suc hi) body s =
     (case for_loop lo hi body s of None \<Rightarrow> None | Some s' \<Rightarrow> body hi s')"
  by (simp add: for_loop_def for_each_append split: option.splits)

lemma for_loop_rule:
  assumes "lo \<le> hi" and "I lo s"
    and "\<And>i t. lo \<le> i \<Longrightarrow> i < hi \<Longrightarrow> I i t \<Longrightarrow> \<exists>t'. body i t = Some t' \<and> I (Suc i) t'"
  shows "\<exists>s'. for_loop lo hi body s = Some s' \<and> I hi s'"
  using assms
proof (induction hi)
  case 0
  then show ?case by (simp add: for_loop_empty)
next
  case (Suc hi)
  show ?case
  proof (cases "lo = Suc hi")
    case True
    with Suc.prems show ?thesis by (simp add: for_loop_empty)
  next
    case False
    with Suc.prems have le: "lo \<le> hi" by simp
    have "\<exists>s'. for_loop lo hi body s = Some s' \<and> I hi s'"
      using Suc.IH [OF le Suc.prems(2)] Suc.prems(3) by simp
    then obtain s' where s': "for_loop lo hi body s = Some s'" "I hi s'" by blast
    from Suc.prems(3) [OF le _ s'(2)] obtain t' where "body hi s' = Some t'" "I (Suc hi) t'"
      by auto
    with s' le show ?thesis by (simp add: for_loop_Suc)
  qed
qed

lemma for_loop_store:
  assumes "n \<le> length out"
    and "\<And>i t. i < n \<Longrightarrow> length t = length out \<Longrightarrow> body i t = Some (t[i := g i])"
  shows "for_loop 0 n body out = Some (map g [0..<n] @ drop n out)"
proof -
  have "\<exists>s'. for_loop 0 n body out = Some s' \<and> s' = map g [0..<n] @ drop n out"
  proof (rule for_loop_rule [where I = "\<lambda>i t. t = map g [0..<i] @ drop i out"])
    fix i t assume i: "i < n" and t: "t = map g [0..<i] @ drop i out"
    from i assms(1) have len: "length t = length out" and il: "i < length out"
      by (simp_all add: t)
    have "t[i := g i] = map g [0..<Suc i] @ drop (Suc i) out"
      using il by (simp add: t list_update_append upd_conv_take_nth_drop
          flip: Cons_nth_drop_Suc)
    with assms(2) [OF i len]
    show "\<exists>t'. body i t = Some t' \<and> t' = map g [0..<Suc i] @ drop (Suc i) out" by simp
  qed simp_all
  then show ?thesis by simp
qed

lemma ewise_binary:
  assumes "length a = n" "length b = n" "length out = n"
  shows "for_loop 0 (length a) (\<lambda>i out. do {
       x \<leftarrow> load a i; y \<leftarrow> load b i; store out i (f x y) }) out
     = Some (map (\<lambda>i. f (a ! i) (b ! i)) [0..<n])"
proof -
  have "for_loop 0 n (\<lambda>i out. do {
       x \<leftarrow> load a i; y \<leftarrow> load b i; store out i (f x y) }) out
     = Some (map (\<lambda>i. f (a ! i) (b ! i)) [0..<n] @ drop n out)"
    by (rule for_loop_store) (simp_all add: assms load_def store_def)
  with assms show ?thesis by simp
qed

lemma ewise_unary:
  assumes "length a = n" "length out = n"
  shows "for_loop 0 (length a) (\<lambda>i out. do {
       x \<leftarrow> load a i; store out i (f x) }) out
     = Some (map (\<lambda>i. f (a ! i)) [0..<n])"
proof -
  have "for_loop 0 n (\<lambda>i out. do { x \<leftarrow> load a i; store out i (f x) }) out
     = Some (map (\<lambda>i. f (a ! i)) [0..<n] @ drop n out)"
    by (rule for_loop_store) (simp_all add: assms load_def store_def)
  with assms show ?thesis by simp
qed

lemmas ewise_defs = EwiseAdd_def ScalarAdd_def EwiseMul_def ScalarMul_def EwiseDiv_def
  ScalarDiv_def ScalarPower_def EwiseMaximum_def ScalarMaximum_def EwiseEq_def ScalarEq_def
  EwiseGe_def ScalarGe_def EwiseLog_def EwiseExp_def EwiseTanh_def

section \<open>Elementwise kernels write every cell\<close>

text \<open>
  Claim C7.  For input and output buffers of the same length \<open>n\<close>, every elementwise
  kernel returns (no undefined step) an output of length \<open>n\<close> whose cell \<open>i\<close> is the
  operation applied to \<open>a[i]\<close> and \<open>b[i]\<close> (or the scalar), for every \<open>i < n\<close>:
  \<^verbatim>\<open>EwiseAdd\<close> writes \<open>a[i] + b[i]\<close>, \<^verbatim>\<open>ScalarGe\<close> writes \<open>1\<close> when \<open>a[i] \<ge> val\<close> and
  \<open>0\<close> otherwise, and so on for the other fourteen kernels.  On \<open>a = [1,2,3]\<close>,
  \<open>b = [4,5,6]\<close> \<^verbatim>\<open>EwiseAdd\<close> yields \<open>[5,7,9]\<close> and \<^verbatim>\<open>ScalarGe(a, 2)\<close> yields \<open>[0,1,1]\<close>
  (the scalars of the example are small integers, which binary32 represents exactly, and
  are read as real numbers).
\<close>

theorem elementwise_kernels:
  fixes a b out :: "'a::{plus,times,inverse,ord,zero,one} list"
  assumes "length a = n" and "length b = n" and "length out = n"
  shows "EwiseAdd a b out = Some (map (\<lambda>i. a ! i + b ! i) [0..<n])
    \<and> ScalarGe a val out = Some (map (\<lambda>i. if a ! i \<ge> val then 1 else 0) [0..<n])
    \<and> ScalarAdd a val out = Some (map (\<lambda>i. a ! i + val) [0..<n])
    \<and> EwiseMul a b out = Some (map (\<lambda>i. a ! i * b ! i) [0..<n])
    \<and> ScalarMul a val out = Some (map (\<lambda>i. a ! i * val) [0..<n])
    \<and> EwiseDiv a b out = Some (map (\<lambda>i. a ! i / b ! i) [0..<n])
    \<and> ScalarDiv a val out = Some (map (\<lambda>i. a ! i / val) [0..<n])
    \<and> ScalarPower powf a val out = Some (map (\<lambda>i. powf (a ! i) val) [0..<n])
    \<and> EwiseMaximum a b out = Some (map (\<lambda>i. if a ! i < b ! i then b ! i else a ! i) [0..<n])
    \<and> ScalarMaximum a val out = Some (map (\<lambda>i. if a ! i < val then val else a ! i) [0..<n])
    \<and> EwiseEq eq a b out = Some (map (\<lambda>i. if eq (a ! i) (b ! i) then 1 else 0) [0..<n])
    \<and> ScalarEq eq a val out = Some (map (\<lambda>i. if eq (a ! i) val then 1 else 0) [0..<n])
    \<and> EwiseGe a b out = Some (map (\<lambda>i. if a ! i \<ge> b ! i then 1 else 0) [0..<n])
    \<and> EwiseLog logf a out = Some (map (\<lambda>i. logf (a ! i)) [0..<n])
    \<and> EwiseExp expf a out = Some (map (\<lambda>i. expf (a ! i)) [0..<n])
    \<and> EwiseTanh tanhf a out = Some (map (\<lambda>i. tanhf (a ! i)) [0..<n])
    \<and> EwiseAdd [1, 2, 3] [4, 5, 6] [o1, o2, o3] = Some [5, 7, 9 :: real]
    \<and> ScalarGe [1, 2, 3] 2 [o1, o2, o3] = Some [0, 1, 1 :: real]"
proof -
  note b = ewise_binary [OF assms] and u = ewise_unary [OF assms(1,3)]
  have ex1: "EwiseAdd [1, 2, 3] [4, 5, 6] [o1, o2, o3] = Some [5, 7, 9 :: real]"
    by (simp add: EwiseAdd_def for_loop_def load_def store_def)
  have ex2: "ScalarGe [1, 2, 3] 2 [o1, o2, o3] = Some [0, 1, 1 :: real]"
    by (simp add: ScalarGe_def for_loop_def load_def store_def scalar_of_bool_def)
  have gen: "EwiseAdd a b out = Some (map (\<lambda>i. a ! i + b ! i) [0..<n])
    \<and> ScalarGe a val out = Some (map (\<lambda>i. if a ! i \<ge> val then 1 else 0) [0..<n])
    \<and> ScalarAdd a val out = Some (map (\<lambda>i. a ! i + val) [0..<n])
    \<and> EwiseMul a b out = Some (map (\<lambda>i. a ! i * b ! i) [0..<n])
    \<and> ScalarMul a val out = Some (map (\<lambda>i. a ! i * val) [0..<n])
    \<and> EwiseDiv a b out = Some (map (\<lambda>i. a ! i / b ! i) [0..<n])
    \<and> ScalarDiv a val out = Some (map (\<lambda>i. a ! i / val) [0..<n])
    \<and> ScalarPower powf a val out = Some (map (\<lambda>i. powf (a ! i) val) [0..<n])
    \<and> EwiseMaximum a b out = Some (map (\<lambda>i. if a ! i < b ! i then b ! i else a ! i) [0..<n])
    \<and> ScalarMaximum a val out = Some (map (\<lambda>i. if a ! i < val then val else a ! i) [0..<n])
    \<and> EwiseEq eq a b out = Some (map (\<lambda>i. if eq (a ! i) (b ! i) then 1 else 0) [0..<n])
    \<and> ScalarEq eq a val out = Some (map (\<lambda>i. if eq (a ! i) val then 1 else 0) [0..<n])
    \<and> EwiseGe a b out = Some (map (\<lambda>i. if a ! i \<ge> b ! i then 1 else 0) [0..<n])
    \<and> EwiseLog logf a out = Some (map (\<lambda>i. logf (a ! i)) [0..<n])
    \<and> EwiseExp expf a out = Some (map (\<lambda>i. expf (a ! i)) [0..<n])
    \<and> EwiseTanh tanhf a out = Some (map (\<lambda>i. tanhf (a ! i)) [0..<n])"
    unfolding ewise_defs b u by (simp add: scalar_of_bool_def std_max_def)
  from gen ex1 ex2 show ?thesis by simp
qed

theorem elementwise_kernels_witness:
  "EwiseAdd [1, 2, 3] [4, 5, 6] [0, 0, 0 :: real] = Some (map (\<lambda>i. [1, 2, 3] ! i + [4, 5, 6] ! i) [0..<3])
   \<and> ScalarGe [1, 2, 3] 2 [0, 0, 0 :: real] = Some (map (\<lambda>i. if [1, 2, 3 :: real] ! i \<ge> 2 then 1 else 0) [0..<3])"
proof -
  have h: "length [1, 2, 3 :: real] = 3" "length [4, 5, 6 :: real] = 3" "length [0, 0, 0 :: real] = 3"
    by simp_all
  from elementwise_kernels [OF h, where val = 2] show ?thesis by blast
qed

section \<open>Exceptional values are stored, never signalled\<close>




section \<open>The index walker\<close>

lemma sint_i32:
  "- (2 ^ 31) \<le> x \<Longrightarrow> x < 2 ^ 31 \<Longrightarrow> sint (word_of_int x :: int32) = x"
  by (simp add: sint_sbintrunc' signed_take_bit_int_eq_self)

lemma i32_Some: "- (2 ^ 31) \<le> x \<Longrightarrow> x < 2 ^ 31 \<Longrightarrow> i32 x = Some (word_of_int x)"
  by (simp add: i32_def)

lemma sint_int32_range: "- (2 ^ 31) \<le> sint (w :: int32)" "sint (w :: int32) < 2 ^ 31"
  using sint_ge [of w] sint_lt [of w] by simp_all

lemma valid_indices_reset:
  "valid_indices shape idx \<Longrightarrow> i < length idx \<Longrightarrow> valid_indices shape (idx[i := 0])"
  unfolding valid_indices_def
  by (auto simp add: nth_list_update intro: order.strict_trans1)

lemma updateIndices_from_step:
  assumes "i < length idx" and "i < length shape"
    and "0 \<le> sint (idx ! i)" and "sint (idx ! i) < sint (shape ! i)"
  shows "updateIndices_from shape idx i =
     (if sint (idx ! i) < sint (shape ! i) - 1 then Some (idx[i := idx ! i + 1])
      else if i = 0 then Some idx
      else updateIndices_from shape (idx[i := 0]) (i - 1))"
proof -
  have hi: "sint (shape ! i) < 2 ^ 31" by (rule sint_int32_range)
  have "i32 (sint (shape ! i) - 1) = Some (word_of_int (sint (shape ! i) - 1))"
    using assms(3,4) hi by (intro i32_Some) linarith+
  then have top: "i32 (sint (shape ! i) - 1) = Some (shape ! i - 1)" by simp
  have "sint (word_of_int (sint (shape ! i) - 1) :: int32) = sint (shape ! i) - 1"
    using assms(3,4) hi by (intro sint_i32) linarith+
  then have stop: "sint (shape ! i - 1) = sint (shape ! i) - 1" by simp
  have "i32 (sint (idx ! i) + 1) = Some (word_of_int (sint (idx ! i) + 1))"
    using assms(3,4) hi by (intro i32_Some) linarith+
  then have inc: "i32 (sint (idx ! i) + 1) = Some (idx ! i + 1)" by simp
  show ?thesis
    by (subst updateIndices_from.simps) (simp only: assms(1,2) top stop inc option.case simp_thms if_True)
qed

lemma updateIndices_from_defined:
  "valid_indices shape idx \<Longrightarrow> i < length idx \<Longrightarrow> \<exists>idx'. updateIndices_from shape idx i = Some idx'"
proof (induction i arbitrary: idx)
  case 0
  then show ?case
    by (subst updateIndices_from_step) (simp_all add: valid_indices_def)
next
  case (Suc i)
  have "\<exists>idx'. updateIndices_from shape (idx[Suc i := 0]) i = Some idx'"
    using Suc.IH [of "idx[Suc i := 0]"] Suc.prems by (simp add: valid_indices_reset)
  with Suc.prems show ?case
    by (subst updateIndices_from_step) (simp_all add: valid_indices_def)
qed

lemma updateIndices_from_final:
  "length idx = length shape \<Longrightarrow> i < length idx \<Longrightarrow>
   \<forall>l \<le> i. 0 < sint (shape ! l) \<and> sint (idx ! l) = sint (shape ! l) - 1 \<Longrightarrow>
   updateIndices_from shape idx i = Some (take 1 idx @ replicate i 0 @ drop (Suc i) idx)"
proof (induction i arbitrary: idx)
  case 0
  have "take 1 idx @ drop (Suc 0) idx = idx"
    by (metis One_nat_def append_take_drop_id)
  with 0 show ?case
    by (subst updateIndices_from_step) simp_all
next
  case (Suc i)
  have "updateIndices_from shape (idx[Suc i := 0]) i
      = Some (take 1 (idx[Suc i := 0]) @ replicate i 0 @ drop (Suc i) (idx[Suc i := 0]))"
    using Suc.prems by (intro Suc.IH) (simp_all)
  also have "take 1 (idx[Suc i := 0]) = take 1 idx" by simp
  also have "drop (Suc i) (idx[Suc i := 0]) = 0 # drop (Suc (Suc i)) idx"
    using Suc.prems(2) by (simp add: upd_conv_take_nth_drop)
  also have "replicate i 0 @ 0 # drop (Suc (Suc i)) idx = replicate (Suc i) (0::int32) @ drop (Suc (Suc i)) idx"
    by (simp add: replicate_append_same)
  finally have rec: "updateIndices_from shape (idx[Suc i := 0]) i
      = Some (take 1 idx @ replicate (Suc i) 0 @ drop (Suc (Suc i)) idx)" .
  from Suc.prems have "0 \<le> sint (idx ! Suc i)" "sint (idx ! Suc i) = sint (shape ! Suc i) - 1"
    by auto
  with Suc.prems(1,2) rec show ?case
    by (subst updateIndices_from_step) simp_all
qed

lemma u64_pred:
  assumes "0 < n" and "n < 2 ^ 64"
  shows "u64 (n + (2 ^ 64 - 1)) = n - 1"
proof -
  have "n + (2 ^ 64 - 1) = (n - 1) + 1 * 2 ^ 64" using assms(1) by simp
  then have "u64 (n + (2 ^ 64 - 1)) = (n - 1) mod 2 ^ 64"
    unfolding u64_def by (simp only: mod_mult_self1)
  with assms show ?thesis by simp
qed

text \<open>
  Claim C10, as stated, fails in its last part: on the final tuple of a shape of rank 2 or
  more, the backward scan resets every later component to \<open>0\<close> before it stops at
  position \<open>0\<close>.  For the shape \<open>[2, 3]\<close> the final tuple \<open>[1, 2]\<close> becomes \<open>[1, 0]\<close>.
\<close>

theorem updateIndices_counterexample:
  "updateIndices [2, 3] [1, 2] = Some [1, 0] \<and> [1, 0] \<noteq> [1, 2 :: int32]"
  by (simp add: updateIndices_def updateIndices_from.simps u64_def i32_def)

text \<open>
  Claim C10, amended.  For a shape of rank at least 1 and a tuple of the same rank whose
  components satisfy \<open>0 \<le> indices_vector[i] < shape[i]\<close>, \<^verbatim>\<open>updateIndices\<close> returns:
  it terminates, every access to \<^verbatim>\<open>indices_vector\<close> and \<^verbatim>\<open>shape\<close> is inside the
  vectors and no signed arithmetic overflows.  Applied to the final tuple
  (\<open>shape[i] - 1\<close> in every component) it keeps component \<open>0\<close> and resets every later
  component to \<open>0\<close>, so the final tuple is a fixed point for rank 1 only (or when every
  later axis has size 1).  For rank 0 the scan starts at index \<open>2 ^ 64 - 1\<close>, outside the
  vectors.  A vector's length is a \<^verbatim>\<open>size_t\<close>, hence below \<open>2 ^ 64\<close>.
\<close>

theorem updateIndices_in_bounds:
  assumes "length idx = length shape" and "1 \<le> length idx" and "length idx < 2 ^ 64"
    and "\<forall>i < length idx. 0 \<le> sint (idx ! i) \<and> sint (idx ! i) < sint (shape ! i)"
  shows "(\<exists>idx'. updateIndices shape idx = Some idx')
    \<and> ((\<forall>i < length idx. sint (idx ! i) = sint (shape ! i) - 1) \<longrightarrow>
         updateIndices shape idx = Some (idx ! 0 # replicate (length idx - 1) 0))
    \<and> updateIndices shape [] = None"
proof -
  have v: "valid_indices shape idx" using assms by (simp add: valid_indices_def)
  from assms(2) have pos: "0 < length idx" by (cases idx) simp_all
  have s: "u64 (length idx + (2 ^ 64 - 1)) = length idx - 1" "length idx - 1 < length idx"
    using pos u64_pred [OF pos assms(3)] by auto
  have 1: "\<exists>idx'. updateIndices shape idx = Some idx'"
    unfolding updateIndices_def s using v s(2) by (rule updateIndices_from_defined)
  have 2: "updateIndices shape idx = Some (idx ! 0 # replicate (length idx - 1) 0)"
    if "\<forall>i < length idx. sint (idx ! i) = sint (shape ! i) - 1"
  proof -
    have "updateIndices shape idx 
      = Some (take 1 idx @ replicate (length idx - 1) 0 @ drop (Suc (length idx - 1)) idx)"
      unfolding updateIndices_def s using assms(1,4) s(2) that
      by (intro updateIndices_from_final) auto
    moreover have "take 1 idx = [idx ! 0]" using assms(2)
      by (cases idx) simp_all
    ultimately show ?thesis using assms(2) by simp
  qed
  have 3: "updateIndices shape [] = None"
    by (simp add: updateIndices_def updateIndices_from.simps u64_def)
  from 1 2 3 show ?thesis by blast
qed

theorem updateIndices_in_bounds_witness:
  "(\<exists>idx'. updateIndices [2, 3] [1, 2] = Some idx')
   \<and> updateIndices [2, 3] [1, 2] = Some ([1, 2] ! 0 # replicate (length [1, 2 :: int32] - 1) 0)"
proof -
  have h: "length [1, 2 :: int32] = length [2, 3 :: int32]" "1 \<le> length [1, 2 :: int32]"
    "length [1, 2 :: int32] < 2 ^ 64"
    "\<forall>i < length [1, 2 :: int32]. 0 \<le> sint ([1, 2 :: int32] ! i) \<and> sint ([1, 2 :: int32] ! i) < sint ([2, 3 :: int32] ! i)"
    by (simp_all add: less_Suc_eq all_conj_distrib nth_Cons')
  have f: "\<forall>i < length [1, 2 :: int32]. sint ([1, 2 :: int32] ! i) = sint ([2, 3 :: int32] ! i) - 1"
    by (simp add: less_Suc_eq nth_Cons')
  from updateIndices_in_bounds [OF h] f show ?thesis by blast
qed

section \<open>Zero-sized axes\<close>

text \<open>
  Claim C9.  When the shape has an axis of size zero and the compact counterpart has as
  many elements as the shape (none), \<^verbatim>\<open>Compact\<close>, \<^verbatim>\<open>EwiseSetitem\<close> and
  \<^verbatim>\<open>ScalarSetitem\<close> run no iteration of their loop: they return at once, for every
  input buffer, strides and offset (also those on which a single iteration would be
  undefined), and every buffer is unchanged.
\<close>

theorem zero_sized_axis_no_iteration:
  assumes "0 \<in> set shape"
    and "int (length out) = prod_list (map sint shape)"
    and "int (length c) = prod_list (map sint shape)"
    and "int sz = prod_list (map sint shape)"
  shows "Compact a out shape strides offset = Some out
    \<and> EwiseSetitem c buf shape strides offset = Some buf
    \<and> ScalarSetitem sz val buf shape strides offset = Some buf"
proof -
  from assms(1) have "(0::int) \<in> set (map sint shape)" by force
  then have "prod_list (map sint shape) = 0" by (simp only: prod_list_zero_iff)
  with assms have "length out = 0" "length c = 0" "sz = 0" by simp_all
  then show ?thesis
    by (simp add: Compact_def EwiseSetitem_def ScalarSetitem_def for_loop_empty)
qed

theorem zero_sized_axis_no_iteration_witness:
  "Compact [] [] [2, 0, 3] [] 7 = Some ([] :: real list)
    \<and> EwiseSetitem [] [1, 2, 3 :: real] [2, 0, 3] [] 7 = Some [1, 2, 3]
    \<and> ScalarSetitem 0 5 [1, 2, 3 :: real] [2, 0, 3] [] 7 = Some [1, 2, 3]"
proof -
  have h: "0 \<in> set [2, 0, 3 :: int32]"
    "int (length ([] :: real list)) = prod_list (map sint [2, 0, 3 :: int32])"
    "int (0 :: nat) = prod_list (map sint [2, 0, 3 :: int32])"
    by simp_all
  from zero_sized_axis_no_iteration [OF h(1) h(2) h(2) h(3)] show ?thesis by blast
qed

section \<open>Reductions over runs\<close>

lemma for_loop_fold:
  assumes "hi \<le> length a"
  shows "for_loop lo hi (\<lambda>j acc. do { x \<leftarrow> load a j; Some (f acc x) }) z
       = Some (foldl f z (map ((!) a) [lo..<hi]))"
proof (cases "lo \<le> hi")
  case False
  then show ?thesis by (simp add: for_loop_empty)
next
  case True
  have "\<exists>s'. for_loop lo hi (\<lambda>j acc. do { x \<leftarrow> load a j; Some (f acc x) }) z = Some s'
      \<and> s' = foldl f z (map ((!) a) [lo..<hi])"
    using True
  proof (rule for_loop_rule [where I = "\<lambda>i s. s = foldl f z (map ((!) a) [lo..<i])"])
    fix i t assume "lo \<le> i" "i < hi" "t = foldl f z (map ((!) a) [lo..<i])"
    with assms show "\<exists>t'. load a i \<bind> (\<lambda>x. Some (f t x)) = Some t' \<and> t' = foldl f z (map ((!) a) [lo..<Suc i])"
      by (simp add: load_def)
  qed simp
  then show ?thesis by simp
qed

lemma u64_id: "x < 2 ^ 64 \<Longrightarrow> u64 x = x"
  by (simp add: u64_def)

lemma run_bounds:
  assumes "length a = length out * reduce_size" and "c < length out" and "1 \<le> reduce_size"
  shows "c * reduce_size < length a" and "c * reduce_size + reduce_size \<le> length a"
proof -
  from assms(2) have "Suc c \<le> length out" by simp
  then have "Suc c * reduce_size \<le> length out * reduce_size" by (rule mult_le_mono1)
  with assms show "c * reduce_size < length a" "c * reduce_size + reduce_size \<le> length a"
    by (simp_all add: add.commute)
qed

lemma take_Suc_update:
  "c < length out \<Longrightarrow> take (Suc c) (out[c := v]) = take c out @ [v]"
  by (simp add: take_Suc_conv_app_nth)

lemma ReduceMax_loop_eq:
  fixes a :: "'a::ord list"
  assumes "1 \<le> reduce_size" and "length a = length out * reduce_size" and "length a < 2 ^ 64"
    and "c \<le> length out"
  shows "ReduceMax_loop a reduce_size (c * reduce_size) c out =
     Some (take c out @ map (\<lambda>i. foldl std_max (a ! (i * reduce_size))
             (map ((!) a) [Suc (i * reduce_size)..<i * reduce_size + reduce_size])) [c..<length out])"
  using assms(2,4)
proof (induction "length out - c" arbitrary: c out)
  case 0
  then show ?case by (subst ReduceMax_loop.simps) simp
next
  case (Suc k)
  then have c: "c < length out" by simp
  note rb = run_bounds [OF Suc.prems(1) c assms(1)]
  have w: "u64 (c * reduce_size + reduce_size) = Suc c * reduce_size"
    using rb(2) assms(3) by (simp add: u64_id add.commute)
  let ?v = "foldl std_max (a ! (c * reduce_size))
              (map ((!) a) [Suc (c * reduce_size)..<c * reduce_size + reduce_size])"
  have inner: "for_loop (Suc (c * reduce_size)) (Suc c * reduce_size)
       (\<lambda>j max_num. do { x \<leftarrow> load a j; Some (std_max max_num x) }) (a ! (c * reduce_size)) = Some ?v"
    using rb(2) by (subst for_loop_fold) (simp_all add: add.commute)
  have IH: "ReduceMax_loop a reduce_size (Suc c * reduce_size) (Suc c) (out[c := ?v]) =
     Some (take (Suc c) (out[c := ?v]) @ map (\<lambda>i. foldl std_max (a ! (i * reduce_size))
             (map ((!) a) [Suc (i * reduce_size)..<i * reduce_size + reduce_size])) [Suc c..<length (out[c := ?v])])"
    using Suc.hyps(2) Suc.prems c by (intro Suc.hyps(1)) simp_all
  show ?case
    using c rb(1)
    by (subst ReduceMax_loop.simps)
      (simp add: w inner IH take_Suc_update upt_conv_Cons [of c] del: mult_Suc)
qed

lemma ReduceSum_loop_eq:
  fixes a :: "'a::{zero,plus} list"
  assumes "1 \<le> reduce_size" and "length a = length out * reduce_size" and "length a < 2 ^ 64"
    and "c \<le> length out"
  shows "ReduceSum_loop a reduce_size (c * reduce_size) c out =
     Some (take c out @ map (\<lambda>i. foldl (+) 0
             (map ((!) a) [i * reduce_size..<i * reduce_size + reduce_size])) [c..<length out])"
  using assms(2,4)
proof (induction "length out - c" arbitrary: c out)
  case 0
  then show ?case by (subst ReduceSum_loop.simps) simp
next
  case (Suc k)
  then have c: "c < length out" by simp
  note rb = run_bounds [OF Suc.prems(1) c assms(1)]
  have w: "u64 (c * reduce_size + reduce_size) = Suc c * reduce_size"
    using rb(2) assms(3) by (simp add: u64_id add.commute)
  let ?v = "foldl (+) 0 (map ((!) a) [c * reduce_size..<c * reduce_size + reduce_size])"
  have inner: "for_loop (c * reduce_size) (Suc c * reduce_size)
       (\<lambda>j sum_res. do { x \<leftarrow> load a j; Some (sum_res + x) }) 0 = Some ?v"
    using rb(2) by (subst for_loop_fold) (simp_all add: add.commute)
  have IH: "ReduceSum_loop a reduce_size (Suc c * reduce_size) (Suc c) (out[c := ?v]) =
     Some (take (Suc c) (out[c := ?v]) @ map (\<lambda>i. foldl (+) 0
             (map ((!) a) [i * reduce_size..<i * reduce_size + reduce_size])) [Suc c..<length (out[c := ?v])])"
    using Suc.hyps(2) Suc.prems c by (intro Suc.hyps(1)) simp_all
  show ?case
    using c rb(1)
    by (subst ReduceSum_loop.simps)
      (simp add: w inner IH take_Suc_update upt_conv_Cons [of c] del: mult_Suc)
qed

lemma foldl_max_run:
  fixes z :: "'b::linorder"
  shows "foldl (\<lambda>m x. if m < x then x else m) z xs = Max (set (z # xs))"
proof -
  have "(\<lambda>x m. if m < x then x else m) = (max :: 'b \<Rightarrow> 'b \<Rightarrow> 'b)"
    by (auto simp add: max_def fun_eq_iff)
  then show ?thesis
    by (simp only: foldl_conv_fold Max.set_eq_fold)
qed

lemma run_Cons:
  "1 \<le> reduce_size \<Longrightarrow>
   a ! (i * reduce_size) # map ((!) a) [i * reduce_size + 1..<i * reduce_size + reduce_size]
     = map ((!) a) [i * reduce_size..<i * reduce_size + reduce_size]"
  by (simp add: upt_conv_Cons [of "i * reduce_size"])

text \<open>
  Claim C6.  For \<open>reduce_size \<ge> 1\<close> and \<open>a.size = out.size * reduce_size\<close> (a size is a
  \<^verbatim>\<open>size_t\<close>, hence below \<open>2 ^ 64\<close>), \<^verbatim>\<open>ReduceMax\<close> returns with \<open>out[i]\<close> the fold of
  \<^verbatim>\<open>std::max\<close>, which keeps its first argument \<open>m\<close> unless \<open>m < x\<close>, over the run
  \<open>a[i * reduce_size .. (i + 1) * reduce_size - 1]\<close> starting from the run's first element;
  on scalars that are linearly ordered this is the greatest element of the run.
  \<^verbatim>\<open>ReduceSum\<close> returns with \<open>out[i]\<close> the left fold of \<open>+\<close>
  over that run starting from \<open>0\<close>, in increasing index order, for every \<open>i < out.size\<close>.
  For \<open>a = [1,2,3,4,5,6]\<close> and \<open>reduce_size = 3\<close> the sums are \<open>[6,15]\<close> and the maxima
  \<open>[3,6]\<close> (small integers, read as real numbers); for \<open>a = [3,1,2,9,0,4]\<close>, whose runs do
  not end with their greatest element, the maxima are \<open>[3,9]\<close>.
\<close>

theorem reductions_over_runs:
  fixes a :: "'a::{ord,zero,plus} list" and l :: "'b::linorder list"
  assumes "1 \<le> reduce_size" and "length a = length out * reduce_size" and "length a < 2 ^ 64"
    and "length l = length lout * reduce_size" and "length l < 2 ^ 64"
  shows "ReduceMax a out reduce_size =
       Some (map (\<lambda>i. foldl (\<lambda>m x. if m < x then x else m) (a ! (i * reduce_size))
               (map ((!) a) [i * reduce_size + 1..<i * reduce_size + reduce_size])) [0..<length out])
    \<and> ReduceMax l lout reduce_size =
       Some (map (\<lambda>i. Max (set (map ((!) l) [i * reduce_size..<i * reduce_size + reduce_size])))
               [0..<length lout])
    \<and> ReduceSum a out reduce_size =
       Some (map (\<lambda>i. foldl (+) 0
               (map ((!) a) [i * reduce_size..<i * reduce_size + reduce_size])) [0..<length out])
    \<and> ReduceSum [1, 2, 3, 4, 5, 6] [o1, o2] 3 = Some [6, 15 :: real]
    \<and> ReduceMax [1, 2, 3, 4, 5, 6] [o1, o2] 3 = Some [3, 6 :: real]
    \<and> ReduceMax [3, 1, 2, 9, 0, 4] [o1, o2] 3 = Some [3, 9 :: real]"
proof -
  have ex1: "ReduceSum [1, 2, 3, 4, 5, 6] [o1, o2] 3 = Some [6, 15 :: real]"
    by (simp add: ReduceSum_def ReduceSum_loop.simps u64_def for_loop_def load_def upt_conv_Cons)
  have ex2: "ReduceMax [1, 2, 3, 4, 5, 6] [o1, o2] 3 = Some [3, 6 :: real]"
    by (simp add: ReduceMax_def ReduceMax_loop.simps u64_def for_loop_def load_def upt_conv_Cons std_max_def)
  have ex3: "ReduceMax [3, 1, 2, 9, 0, 4] [o1, o2] 3 = Some [3, 9 :: real]"
    by (simp add: ReduceMax_def ReduceMax_loop.simps u64_def for_loop_def load_def upt_conv_Cons std_max_def)
  have m: "std_max = (\<lambda>m x :: 'c::ord. if m < x then x else m)"
    by (simp add: std_max_def fun_eq_iff)
  have mx: "ReduceMax a out reduce_size =
       Some (map (\<lambda>i. foldl (\<lambda>m x. if m < x then x else m) (a ! (i * reduce_size))
               (map ((!) a) [i * reduce_size + 1..<i * reduce_size + reduce_size])) [0..<length out])"
    using ReduceMax_loop_eq [OF assms(1-3), of 0] by (simp add: ReduceMax_def m)
  have "ReduceMax l lout reduce_size =
       Some (map (\<lambda>i. foldl (\<lambda>m x. if m < x then x else m) (l ! (i * reduce_size))
               (map ((!) l) [i * reduce_size + 1..<i * reduce_size + reduce_size])) [0..<length lout])"
    using ReduceMax_loop_eq [OF assms(1) assms(4,5), of 0] by (simp add: ReduceMax_def m)
  then have lmx: "ReduceMax l lout reduce_size =
       Some (map (\<lambda>i. Max (set (map ((!) l) [i * reduce_size..<i * reduce_size + reduce_size])))
               [0..<length lout])"
    by (simp only: foldl_max_run run_Cons [OF assms(1)])
  have sm: "ReduceSum a out reduce_size =
       Some (map (\<lambda>i. foldl (+) 0
               (map ((!) a) [i * reduce_size..<i * reduce_size + reduce_size])) [0..<length out])"
    using ReduceSum_loop_eq [OF assms(1-3), of 0] by (simp add: ReduceSum_def)
  from mx lmx sm ex1 ex2 ex3 show ?thesis by blast
qed

theorem reductions_over_runs_witness:
  "ReduceMax [3, 1, 2, 9, 0, 4] [0, 0 :: real] 3 =
       Some (map (\<lambda>i. foldl (\<lambda>m x. if m < x then x else m) ([3, 1, 2, 9, 0, 4] ! (i * 3))
               (map ((!) [3, 1, 2, 9, 0, 4]) [i * 3 + 1..<i * 3 + 3])) [0..<length [0, 0 :: real]])
    \<and> ReduceMax [3, 1, 2, 9, 0, 4] [0, 0 :: real] 3 =
       Some (map (\<lambda>i. Max (set (map ((!) [3, 1, 2, 9, 0, 4]) [i * 3..<i * 3 + 3])))
               [0..<length [0, 0 :: real]])
    \<and> ReduceSum [3, 1, 2, 9, 0, 4] [0, 0 :: real] 3 =
       Some (map (\<lambda>i. foldl (+) 0
               (map ((!) [3, 1, 2, 9, 0, 4]) [i * 3..<i * 3 + 3])) [0..<length [0, 0 :: real]])"
proof -
  have h: "1 \<le> (3 :: nat)" "length [3, 1, 2, 9, 0, 4 :: real] = length [0, 0 :: real] * 3"
    "length [3, 1, 2, 9, 0, 4 :: real] < 2 ^ 64"
    by simp_all
  from reductions_over_runs [OF h h(2,3)] show ?thesis by blast
qed

section \<open>Loops over cells\<close>

lemma updates_Nil [simp]: "updates W F [] out = out"
  by (simp add: updates_def)

lemma updates_Cons: "updates W F (k # ks) out = updates W F ks (out[W k := F k (out ! W k)])"
  by (simp add: updates_def)

lemma updates_append: "updates W F (ks @ ls) out = updates W F ls (updates W F ks out)"
  by (simp add: updates_def)

lemma length_updates [simp]: "length (updates W F ks out) = length out"
  by (induction ks arbitrary: out) (simp_all add: updates_Cons)

lemma updates_map: "updates W F (map g ks) out = updates (W \<circ> g) (F \<circ> g) ks out"
  by (induction ks arbitrary: out) (simp_all add: updates_Cons)

lemma updates_frame:
  "x \<notin> W ` set ks \<Longrightarrow> updates W F ks out ! x = out ! x"
  by (induction ks arbitrary: out) (auto simp add: updates_Cons)

lemma updates_unique:
  assumes "k \<in> set ks" and "distinct ks" and "W k < length out"
    and "\<forall>k' \<in> set ks. W k' = W k \<longrightarrow> k' = k"
  shows "updates W F ks out ! W k = F k (out ! W k)"
  using assms
proof (induction ks arbitrary: out)
  case Nil
  then show ?case by simp
next
  case (Cons l ks)
  show ?case
  proof (cases "l = k")
    case True
    with Cons.prems have "W k \<notin> W ` set ks" by auto
    then have "updates W F ks (out[W k := F k (out ! W k)]) ! W k = out[W k := F k (out ! W k)] ! W k"
      by (rule updates_frame)
    with True Cons.prems(3) show ?thesis by (simp add: updates_Cons)
  next
    case False
    with Cons.prems have k: "k \<in> set ks" and ne: "W l \<noteq> W k" by auto
    have "updates W F ks (out[W l := F l (out ! W l)]) ! W k = F k (out[W l := F l (out ! W l)] ! W k)"
      using k Cons.prems by (intro Cons.IH) simp_all
    with ne show ?thesis by (simp add: updates_Cons)
  qed
qed

lemma for_loop_updates:
  assumes "\<And>j t. j < n \<Longrightarrow> length t = length out \<Longrightarrow> body j t = Some (t[W j := F j (t ! W j)])"
  shows "for_loop 0 n body out = Some (updates W F [0..<n] out)"
proof -
  have "\<exists>s'. for_loop 0 n body out = Some s' \<and> s' = updates W F [0..<n] out"
  proof (rule for_loop_rule [where I = "\<lambda>i t. t = updates W F [0..<i] out"])
    fix i t assume "i < n" "t = updates W F [0..<i] out"
    then show "\<exists>t'. body i t = Some t' \<and> t' = updates W F [0..<Suc i] out"
      using assms [of i t] by (simp add: updates_append updates_Cons)
  qed simp_all
  then show ?thesis by simp
qed

lemma product_snoc: "List.product (xs @ [x]) ys = List.product xs ys @ map (Pair x) ys"
  by (induction xs) simp_all

lemma for_loop_updates_nested:
  assumes "\<And>i t. i < m \<Longrightarrow> length t = length out \<Longrightarrow>
     body i t = Some (updates (\<lambda>j. W (i, j)) (\<lambda>j. F (i, j)) [0..<p] t)"
  shows "for_loop 0 m body out = Some (updates W F (List.product [0..<m] [0..<p]) out)"
proof -
  have "\<exists>s'. for_loop 0 m body out = Some s' \<and> s' = updates W F (List.product [0..<m] [0..<p]) out"
  proof (rule for_loop_rule [where I = "\<lambda>i t. t = updates W F (List.product [0..<i] [0..<p]) out"])
    fix i t assume "i < m" "t = updates W F (List.product [0..<i] [0..<p]) out"
    then show "\<exists>t'. body i t = Some t' \<and> t' = updates W F (List.product [0..<Suc i] [0..<p]) out"
      using assms [of i t] by (simp add: product_snoc updates_append updates_map comp_def)
  qed simp_all
  then show ?thesis by simp
qed

text \<open>The accumulation of one cell: the innermost loop of \<^verbatim>\<open>Matmul\<close> and \<^verbatim>\<open>AlignedDot\<close>.\<close>

lemma accumulate_cell:
  fixes a :: "'a::{plus,times} list"
  assumes "c < length out" and "\<forall>k < n. ia k < length a \<and> ib k < length b"
  shows "for_loop 0 n (\<lambda>k out. do {
           x \<leftarrow> load a (ia k);
           y \<leftarrow> load b (ib k);
           acc \<leftarrow> load out c;
           store out c (acc + x * y) }) out
       = Some (out[c := foldl (\<lambda>acc k. acc + a ! ia k * b ! ib k) (out ! c) [0..<n]])"
proof -
  let ?body = "\<lambda>k out. do {
           x \<leftarrow> load a (ia k);
           y \<leftarrow> load b (ib k);
           acc \<leftarrow> load out c;
           store out c (acc + x * y) }"
  let ?f = "\<lambda>acc k. acc + a ! ia k * b ! ib k"
  have "\<exists>s'. for_loop 0 n ?body out = Some s' \<and> s' = out[c := foldl ?f (out ! c) [0..<n]]"
  proof (rule for_loop_rule [where I = "\<lambda>i t. t = out[c := foldl ?f (out ! c) [0..<i]]"])
    fix i t assume "i < n" "t = out[c := foldl ?f (out ! c) [0..<i]]"
    with assms show "\<exists>t'. ?body i t = Some t' \<and> t' = out[c := foldl ?f (out ! c) [0..<Suc i]]"
      by (simp add: load_def store_def)
  qed simp_all
  then show ?thesis by simp
qed


lemma u32_less: "u32 x < 2 ^ 32"
  by (simp add: u32_def)

lemma u32_le: "u32 x \<le> x"
  by (simp add: u32_def)

lemma u32_id: "x < 2 ^ 32 \<Longrightarrow> u32 x = x"
  by (simp add: u32_def)

subsection \<open>The naive product\<close>

lemma Matmul_cell:
  fixes a :: "'a::{zero,plus,times} list"
  assumes "c < length s" and "\<forall>k < n. ia k < length a \<and> ib k < length b"
  shows "store s c 0 \<bind> for_loop 0 n (\<lambda>k out. do {
            x \<leftarrow> load a (ia k);
            y \<leftarrow> load b (ib k);
            acc \<leftarrow> load out c;
            store out c (acc + x * y) })
       = Some (s[c := foldl (\<lambda>acc k. acc + a ! ia k * b ! ib k) 0 [0..<n]])"
proof -
  have st: "store s c 0 = Some (s[c := 0])"
    using assms(1) by (simp add: store_def)
  show ?thesis
    using assms by (simp add: st accumulate_cell)
qed

lemma Matmul_updates:
  fixes a :: "'a::{zero,plus,times} list"
  assumes out: "\<forall>i < m. \<forall>j < p. u32 (i * p + j) < length out"
    and a: "\<forall>i < m. \<forall>k < n. u32 (i * n + k) < length a"
    and b: "\<forall>k < n. \<forall>j < p. u32 (k * p + j) < length b"
  shows "Matmul a b out m n p =
     Some (updates (\<lambda>(i, j). u32 (i * p + j))
            (\<lambda>(i, j) v. foldl (\<lambda>acc k. acc + a ! u32 (i * n + k) * b ! u32 (k * p + j)) 0 [0..<n])
            (List.product [0..<m] [0..<p]) out)"
  unfolding Matmul_def
  by (rule for_loop_updates_nested, rule for_loop_updates) (simp add: Matmul_cell assms)


lemma cell_index_less: "i < m \<Longrightarrow> j < p \<Longrightarrow> i * p + j < m * (p :: nat)"
proof -
  assume "i < m" "j < p"
  then have "i * p + j < i * p + p" "Suc i * p \<le> m * p"
    by (simp_all only: add_less_cancel_left Suc_leI mult_le_mono1)
  then show ?thesis by simp
qed

lemma cell_index_inj:
  assumes "j < p" and "j' < p" and "i * p + j = i' * p + (j' :: nat)"
  shows "i = i' \<and> j = j'"
proof -
  have "(i * p + j) div p = i" "(i' * p + j') div p = i'"
       "(i * p + j) mod p = j" "(i' * p + j') mod p = j'"
    using assms(1,2) by simp_all
  with assms(3) show ?thesis by metis
qed

lemma Matmul_exact:
  fixes a :: "'a::{zero,plus,times} list"
  assumes "length a = m * n" and "length b = n * p" and "length out = m * p"
    and "m * n \<le> 2 ^ 32" and "n * p \<le> 2 ^ 32" and "m * p \<le> 2 ^ 32"
  shows "\<exists>out'. Matmul a b out m n p = Some out' \<and> length out' = m * p \<and>
     (\<forall>i < m. \<forall>j < p. out' ! (i * p + j) = matmul_cell a b n p i j)"
proof -
  have wo: "u32 (i * p + j) = i * p + j" "i * p + j < length out" if "i < m" "j < p" for i j
    using cell_index_less [OF that] assms(3,6) by (simp_all add: u32_id)
  have wa: "u32 (i * n + k) = i * n + k" "i * n + k < length a" if "i < m" "k < n" for i k
    using cell_index_less [OF that] assms(1,4) by (simp_all add: u32_id)
  have wb: "u32 (k * p + j) = k * p + j" "k * p + j < length b" if "k < n" "j < p" for k j
    using cell_index_less [OF that] assms(2,5) by (simp_all add: u32_id)
  let ?W = "\<lambda>(i, j). u32 (i * p + j)"
  let ?F = "\<lambda>(i, j) v. foldl (\<lambda>acc k. acc + a ! u32 (i * n + k) * b ! u32 (k * p + j)) 0 [0..<n]"
  let ?out = "updates ?W ?F (List.product [0..<m] [0..<p]) out"
  have run: "Matmul a b out m n p = Some ?out"
    by (rule Matmul_updates) (simp_all add: wo wa wb)
  have cell: "?out ! (i * p + j) = matmul_cell a b n p i j" if ij: "i < m" "j < p" for i j
  proof -
    have "?out ! ?W (i, j) = ?F (i, j) (out ! ?W (i, j))"
    proof (rule updates_unique)
      show "\<forall>k' \<in> set (List.product [0..<m] [0..<p]). ?W k' = ?W (i, j) \<longrightarrow> k' = (i, j)"
        using ij cell_index_inj [of _ p j _ i] by (auto simp add: wo)
    qed (simp_all add: ij wo distinct_product)
    also have "?F (i, j) (out ! ?W (i, j)) = matmul_cell a b n p i j"
      unfolding matmul_cell_def by (simp, rule foldl_cong) (simp_all add: wa wb ij)
    finally show ?thesis by (simp add: wo ij)
  qed
  from run cell assms(3) show ?thesis by simp
qed

lemma notin_imageI: "(\<And>k. W k \<noteq> x) \<Longrightarrow> x \<notin> W ` S"
  by blast

lemma Matmul_frame:
  fixes a :: "'a::{zero,plus,times} list"
  assumes "\<forall>i < m. \<forall>j < p. u32 (i * p + j) < length out"
    and "\<forall>i < m. \<forall>k < n. u32 (i * n + k) < length a"
    and "\<forall>k < n. \<forall>j < p. u32 (k * p + j) < length b"
    and "2 ^ 32 \<le> x" and "x < length out"
  shows "result_cell (Matmul a b out m n p) x = Some (out ! x)"
proof -
  have "(case k of (i, j) \<Rightarrow> u32 (i * p + j)) \<noteq> x" for k
    using u32_less [of "fst k * p + snd k"] assms(4) by (cases k) simp
  then have "x \<notin> (\<lambda>(i, j). u32 (i * p + j)) ` set (List.product [0..<m] [0..<p])"
    by (rule notin_imageI)
  then show ?thesis
    using assms(5) by (simp add: Matmul_updates [OF assms(1-3)] result_cell_def load_def updates_frame)
qed

text \<open>
  Claim C5, as stated, fails for matrices of more than \<open>2 ^ 32\<close> elements: the index
  \<^verbatim>\<open>i * p + j\<close> is computed in \<^verbatim>\<open>uint32_t\<close> and wraps around.  For \<open>m = 65537\<close>, \<open>n = 1\<close>,
  \<open>p = 65536\<close>, with \<open>a\<close> and \<open>b\<close> zero and \<open>out\<close> filled with \<open>7\<close>, the cell
  \<open>(65536, 0)\<close> at index \<open>65536 * 65536 + 0 = 2 ^ 32\<close> is never written: it keeps its prior
  content \<open>7\<close>, where the sum of products is \<open>0\<close>.
\<close>

theorem Matmul_counterexample:
  "result_cell
     (Matmul (replicate 65537 0) (replicate 65536 0) (replicate (65537 * 65536) 7) 65537 1 65536)
     (65536 * 65536 + 0) = Some (7 :: real)
   \<and> matmul_cell (replicate 65537 0) (replicate 65536 0) 1 65536 65536 0 = (0 :: real)"
proof -
  let ?a = "replicate 65537 (0 :: real)" and ?b = "replicate 65536 (0 :: real)"
  let ?out = "replicate (65537 * 65536) (7 :: real)"
  have lt: "u32 x < 4295032832" for x
    using u32_less [of x] by simp
  have "result_cell (Matmul ?a ?b ?out 65537 1 65536) (65536 * 65536 + 0) = Some (?out ! (65536 * 65536 + 0))"
    by (rule Matmul_frame) (simp_all add: lt u32_id)
  moreover have "matmul_cell ?a ?b 1 65536 65536 0 = 0"
    by (simp add: matmul_cell_def)
  ultimately show ?thesis by simp
qed

text \<open>
  Claim C5, amended.  For \<open>a\<close> compact \<open>m \<times> n\<close>, \<open>b\<close> compact \<open>n \<times> p\<close> and \<open>out\<close> compact
  \<open>m \<times> p\<close>, each of at most \<open>2 ^ 32\<close> elements, \<^verbatim>\<open>Matmul\<close> returns with every cell
  \<open>out[i * p + j]\<close> equal to the left fold over \<open>k = 0, ..., n - 1\<close>, in increasing order, of
  \<open>a[i * n + k] * b[k * p + j]\<close> starting from \<open>0\<close>, whatever \<open>out\<close> held before.  For
  \<open>a = [[1,2],[3,4]]\<close> and \<open>b = [[5,6],[7,8]]\<close> the result is \<open>[[19,22],[43,50]]\<close> (small
  integers, read as real numbers).
\<close>

theorem Matmul_naive:
  fixes a :: "'a::{zero,plus,times} list"
  assumes "length a = m * n" and "length b = n * p" and "length out = m * p"
    and "m * n \<le> 2 ^ 32" and "n * p \<le> 2 ^ 32" and "m * p \<le> 2 ^ 32"
  shows "(\<exists>out'. Matmul a b out m n p = Some out' \<and> length out' = m * p \<and>
       (\<forall>i < m. \<forall>j < p. out' ! (i * p + j) = matmul_cell a b n p i j))
    \<and> Matmul [1, 2, 3, 4] [5, 6, 7, 8] [o1, o2, o3, o4] 2 2 2 = Some [19, 22, 43, 50 :: real]"
proof -
  have "Matmul [1, 2, 3, 4] [5, 6, 7, 8] [o1, o2, o3, o4] 2 2 2 = Some [19, 22, 43, 50 :: real]"
    by (simp add: Matmul_def for_loop_def load_def store_def u32_def upt_conv_Cons)
  with Matmul_exact [OF assms] show ?thesis by simp
qed

theorem Matmul_naive_witness:
  "\<exists>out'. Matmul [1, 2, 3, 4] [5, 6, 7, 8] [0, 0, 0, 0 :: real] 2 2 2 = Some out' \<and> length out' = 2 * 2 \<and>
       (\<forall>i < 2. \<forall>j < 2. out' ! (i * 2 + j) = matmul_cell [1, 2, 3, 4] [5, 6, 7, 8] 2 2 i j)"
proof -
  have h: "length [1, 2, 3, 4 :: real] = 2 * 2" "length [5, 6, 7, 8 :: real] = 2 * 2"
    "length [0, 0, 0, 0 :: real] = 2 * 2" "(2 :: nat) * 2 \<le> 2 ^ 32"
    by simp_all
  from Matmul_naive [OF h(1) h(2) h(3) h(4) h(4) h(4)] show ?thesis by blast
qed


subsection \<open>The micro-kernel\<close>

lemma tile_index:
  assumes "i < TILE" and "j < TILE"
  shows "u32 (i * TILE + j) = i * TILE + j" and "i * TILE + j < TILE * TILE"
proof -
  show lt: "i * TILE + j < TILE * TILE" using assms by (rule cell_index_less)
  have "TILE * TILE < (2 :: nat) ^ 32" by (simp add: TILE_def)
  with lt show "u32 (i * TILE + j) = i * TILE + j" by (simp add: u32_id)
qed

lemma AlignedDot_updates:
  fixes a :: "'a::{plus,times} list"
  assumes "TILE * TILE \<le> length a" and "TILE * TILE \<le> length b" and "TILE * TILE \<le> length out"
    and "assume_aligned a_ptr (TILE * ELEM_SIZE)" and "assume_aligned b_ptr (TILE * ELEM_SIZE)"
    and "assume_aligned out_ptr (TILE * ELEM_SIZE)"
  shows "AlignedDot a_ptr a b_ptr b out_ptr out =
     Some (updates (\<lambda>(i, j). u32 (i * TILE + j))
            (\<lambda>(i, j) v. foldl (\<lambda>acc k. acc + a ! u32 (i * TILE + k) * b ! u32 (k * TILE + j)) v [0..<TILE])
            (List.product [0..<TILE] [0..<TILE]) out)"
  unfolding AlignedDot_def if_P [OF conjI [OF assms(4) conjI [OF assms(5,6)]]]
proof (rule for_loop_updates_nested, rule for_loop_updates)
  fix i j :: nat and s t :: "'a list"
  assume ij: "i < TILE" "j < TILE" and len: "length t = length out" "length s = length t"
  have c: "u32 (i * TILE + j) < length s"
    using tile_index [OF ij] assms(3) len by simp
  have ab: "u32 (i * TILE + k) < length a \<and> u32 (k * TILE + j) < length b" if "k < TILE" for k
    using tile_index [OF ij(1) that] tile_index [OF that ij(2)] assms(1,2) by simp
  show "for_loop 0 TILE (\<lambda>k out. do {
            x \<leftarrow> load a (u32 (i * TILE + k));
            y \<leftarrow> load b (u32 (k * TILE + j));
            acc \<leftarrow> load out (u32 (i * TILE + j));
            store out (u32 (i * TILE + j)) (acc + x * y) }) s
      = Some (s[(case (i, j) of (i, j) \<Rightarrow> u32 (i * TILE + j)) :=
           (case (i, j) of (i, j) \<Rightarrow> \<lambda>v. foldl (\<lambda>acc k. acc + a ! u32 (i * TILE + k) * b ! u32 (k * TILE + j)) v [0..<TILE])
             (s ! (case (i, j) of (i, j) \<Rightarrow> u32 (i * TILE + j)))])"
    using c ab by (simp add: accumulate_cell)
qed

lemma AlignedDot_exact:
  fixes a :: "'a::{plus,times} list"
  assumes "TILE * TILE \<le> length a" and "TILE * TILE \<le> length b" and "TILE * TILE \<le> length out"
    and "assume_aligned a_ptr (TILE * ELEM_SIZE)" and "assume_aligned b_ptr (TILE * ELEM_SIZE)"
    and "assume_aligned out_ptr (TILE * ELEM_SIZE)"
  shows "\<exists>out'. AlignedDot a_ptr a b_ptr b out_ptr out = Some out' \<and> length out' = length out \<and>
     (\<forall>i < TILE. \<forall>j < TILE. out' ! (i * TILE + j) = tile_cell a b (out ! (i * TILE + j)) i j) \<and>
     (\<forall>x. TILE * TILE \<le> x \<longrightarrow> out' ! x = out ! x)"
proof -
  let ?W = "\<lambda>(i, j). u32 (i * TILE + j)"
  let ?F = "\<lambda>(i, j) v. foldl (\<lambda>acc k. acc + a ! u32 (i * TILE + k) * b ! u32 (k * TILE + j)) v [0..<TILE]"
  let ?ks = "List.product [0..<TILE] [0..<TILE]"
  let ?out = "updates ?W ?F ?ks out"
  note run = AlignedDot_updates [OF assms]
  have cell: "?out ! (i * TILE + j) = tile_cell a b (out ! (i * TILE + j)) i j"
    if ij: "i < TILE" "j < TILE" for i j
  proof -
    have "?out ! ?W (i, j) = ?F (i, j) (out ! ?W (i, j))"
    proof (rule updates_unique)
      show "\<forall>k' \<in> set ?ks. ?W k' = ?W (i, j) \<longrightarrow> k' = (i, j)"
        using ij cell_index_inj [of _ TILE j _ i] by (auto simp add: tile_index)
      show "?W (i, j) < length out"
        using tile_index [OF ij] assms(3) by simp
    qed (simp_all add: ij distinct_product)
    also have "?F (i, j) (out ! ?W (i, j)) = tile_cell a b (out ! (i * TILE + j)) i j"
      unfolding tile_cell_def by (simp add: tile_index ij, rule foldl_cong) (simp_all add: tile_index ij)
    finally show ?thesis by (simp add: tile_index ij)
  qed
  have frame: "?out ! x = out ! x" if "TILE * TILE \<le> x" for x
  proof (rule updates_frame)
    show "x \<notin> ?W ` set ?ks"
    proof
      assume "x \<in> ?W ` set ?ks"
      then obtain i j where "i < TILE" "j < TILE" "x = u32 (i * TILE + j)" by auto
      with tile_index [of i j] that show False by simp
    qed
  qed
  from run cell frame show ?thesis by simp
qed

lemma AlignedDot_misaligned:
  assumes "\<not> (assume_aligned a_ptr (TILE * ELEM_SIZE) \<and> assume_aligned b_ptr (TILE * ELEM_SIZE)
        \<and> assume_aligned out_ptr (TILE * ELEM_SIZE))"
  shows "AlignedDot a_ptr a b_ptr b out_ptr out = None"
  unfolding AlignedDot_def using assms by (rule if_not_P)

text \<open>
  Claim C4, as stated, fails for tiles that do not overlap but are not aligned: the
  kernel starts with \<^verbatim>\<open>__builtin_assume_aligned\<close> on each of its three pointers, so on a
  tile at an address that is not a multiple of \<^verbatim>\<open>TILE * ELEM_SIZE = 32\<close> its behaviour is
  undefined.  Here \<open>a\<close> is at address \<open>16\<close>, \<open>b\<close> at \<open>1024\<close> and \<open>out\<close> at \<open>2048\<close>: three
  disjoint tiles of 256 bytes.
\<close>

theorem AlignedDot_counterexample:
  "AlignedDot 16 (replicate 64 2) 1024 (replicate 64 3) 2048 (replicate 64 1) = (None :: real list option)
   \<and> 16 + TILE * TILE * ELEM_SIZE \<le> 1024 \<and> 1024 + TILE * TILE * ELEM_SIZE \<le> 2048"
  by (simp add: AlignedDot_def assume_aligned_def TILE_def ELEM_SIZE_def)

text \<open>
  Claim C4, amended.  For three tiles \<open>a\<close>, \<open>b\<close>, \<open>out\<close> of \<open>T \<times> T\<close> scalars (\<open>T = 8\<close>; three
  buffers of the model never overlap), each at an address that is a multiple of
  \<^verbatim>\<open>TILE * ELEM_SIZE = 32\<close>, \<^verbatim>\<open>AlignedDot\<close> returns with \<open>out[i * T + j]\<close> equal to its prior
  value plus the products \<open>a[i * T + k] * b[k * T + j]\<close> added one by one for
  \<open>k = 0, ..., T - 1\<close> in increasing order, for all \<open>i, j < T\<close>: it accumulates onto the prior
  content, which is neither reset to zero nor replaced.
\<close>

theorem AlignedDot_accumulates:
  fixes a :: "'a::{plus,times} list"
  assumes "length a = TILE * TILE" and "length b = TILE * TILE" and "length out = TILE * TILE"
    and "assume_aligned a_ptr (TILE * ELEM_SIZE)" and "assume_aligned b_ptr (TILE * ELEM_SIZE)"
    and "assume_aligned out_ptr (TILE * ELEM_SIZE)"
  shows "\<exists>out'. AlignedDot a_ptr a b_ptr b out_ptr out = Some out' \<and> length out' = TILE * TILE \<and>
     (\<forall>i < TILE. \<forall>j < TILE. out' ! (i * TILE + j) =
        foldl (\<lambda>acc k. acc + a ! (i * TILE + k) * b ! (k * TILE + j)) (out ! (i * TILE + j)) [0..<TILE])"
proof -
  from AlignedDot_exact [of a b out a_ptr b_ptr out_ptr] assms obtain out' where
    "AlignedDot a_ptr a b_ptr b out_ptr out = Some out'" "length out' = length out"
    "\<forall>i < TILE. \<forall>j < TILE. out' ! (i * TILE + j) = tile_cell a b (out ! (i * TILE + j)) i j"
    by auto
  with assms(3) show ?thesis by (simp add: tile_cell_def)
qed

theorem AlignedDot_accumulates_witness:
  "\<exists>out'. AlignedDot 0 (replicate 64 2) 256 (replicate 64 3) 512 (replicate 64 (1 :: real)) = Some out' \<and>
     length out' = TILE * TILE \<and>
     (\<forall>i < TILE. \<forall>j < TILE. out' ! (i * TILE + j) =
        foldl (\<lambda>acc k. acc + replicate 64 2 ! (i * TILE + k) * replicate 64 3 ! (k * TILE + j))
          (replicate 64 1 ! (i * TILE + j)) [0..<TILE])"
proof -
  have h: "length (replicate 64 (2 :: real)) = TILE * TILE" "length (replicate 64 (3 :: real)) = TILE * TILE"
    "length (replicate 64 (1 :: real)) = TILE * TILE"
    by (simp_all add: TILE_def)
  have al: "assume_aligned 0 (TILE * ELEM_SIZE)" "assume_aligned 256 (TILE * ELEM_SIZE)"
    "assume_aligned 512 (TILE * ELEM_SIZE)"
    by (simp_all add: assume_aligned_def TILE_def ELEM_SIZE_def)
  from AlignedDot_accumulates [OF h al] show ?thesis .
qed

section \<open>The tiled product\<close>



lemma for_loop_updates2:
  assumes "\<And>j s t. j < n \<Longrightarrow> length s = length sa \<Longrightarrow> length t = length sb \<Longrightarrow>
     body j (s, t) = Some (s[W j := F j (s ! W j)], t[W' j := F' j (t ! W' j)])"
  shows "for_loop 0 n body (sa, sb) = Some (updates W F [0..<n] sa, updates W' F' [0..<n] sb)"
proof -
  have "\<exists>s'. for_loop 0 n body (sa, sb) = Some s' \<and> s' = (updates W F [0..<n] sa, updates W' F' [0..<n] sb)"
  proof (rule for_loop_rule [where I = "\<lambda>i s. s = (updates W F [0..<i] sa, updates W' F' [0..<i] sb)"])
    fix i s assume "i < n" "s = (updates W F [0..<i] sa, updates W' F' [0..<i] sb)"
    then show "\<exists>t'. body i s = Some t' \<and> t' = (updates W F [0..<Suc i] sa, updates W' F' [0..<Suc i] sb)"
      using assms [of i "fst s" "snd s"] by (simp add: updates_append updates_Cons)
  qed simp_all
  then show ?thesis by simp
qed

lemma for_loop_updates2_nested:
  assumes "\<And>i s t. i < m \<Longrightarrow> length s = length sa \<Longrightarrow> length t = length sb \<Longrightarrow>
     body i (s, t) = Some (updates (\<lambda>j. W (i, j)) (\<lambda>j. F (i, j)) [0..<p] s,
                           updates (\<lambda>j. W' (i, j)) (\<lambda>j. F' (i, j)) [0..<p] t)"
  shows "for_loop 0 m body (sa, sb) =
     Some (updates W F (List.product [0..<m] [0..<p]) sa, updates W' F' (List.product [0..<m] [0..<p]) sb)"
proof -
  let ?ks = "\<lambda>i. List.product [0..<i] [0..<p]"
  have "\<exists>s'. for_loop 0 m body (sa, sb) = Some s' \<and> s' = (updates W F (?ks m) sa, updates W' F' (?ks m) sb)"
  proof (rule for_loop_rule [where I = "\<lambda>i s. s = (updates W F (?ks i) sa, updates W' F' (?ks i) sb)"])
    fix i s assume "i < m" "s = (updates W F (?ks i) sa, updates W' F' (?ks i) sb)"
    then show "\<exists>t'. body i s = Some t' \<and> t' = (updates W F (?ks (Suc i)) sa, updates W' F' (?ks (Suc i)) sb)"
      using assms [of i "fst s" "snd s"]
      by (simp add: product_snoc updates_append updates_map comp_def)
  qed simp_all
  then show ?thesis by simp
qed

subsection \<open>The parts of the tiled product\<close>

lemma make_tile_updates:
  assumes "length tile_a = TILE * TILE" and "length tile_b = TILE * TILE"
    and "\<forall>ii < TILE. \<forall>jj < TILE.
           u32 (i * n * TILE + k * TILE * TILE + ii * TILE + jj) < length a
         \<and> u32 (k * p * TILE + j * TILE * TILE + ii * TILE + jj) < length b"
  shows "make_tile a b n p i j k (tile_a, tile_b) =
     Some (updates (\<lambda>(ii, jj). u32 (ii * TILE + jj))
             (\<lambda>(ii, jj) v. a ! u32 (i * n * TILE + k * TILE * TILE + ii * TILE + jj))
             (List.product [0..<TILE] [0..<TILE]) tile_a,
           updates (\<lambda>(ii, jj). u32 (ii * TILE + jj))
             (\<lambda>(ii, jj) v. b ! u32 (k * p * TILE + j * TILE * TILE + ii * TILE + jj))
             (List.product [0..<TILE] [0..<TILE]) tile_b)"
  unfolding make_tile_def
  by (rule for_loop_updates2_nested, rule for_loop_updates2)
    (simp add: assms load_def store_def tile_index)

lemma tile_updates_nth:
  assumes "length t = TILE * TILE" and "ii < TILE" and "jj < TILE"
  shows "updates (\<lambda>(ii, jj). u32 (ii * TILE + jj)) (\<lambda>(ii, jj) v. g ii jj)
           (List.product [0..<TILE] [0..<TILE]) t ! (ii * TILE + jj) = g ii jj"
proof -
  let ?W = "\<lambda>(ii, jj). u32 (ii * TILE + jj)"
  let ?F = "\<lambda>(ii, jj) v. g ii jj"
  let ?ks = "List.product [0..<TILE] [0..<TILE]"
  have "updates ?W ?F ?ks t ! ?W (ii, jj) = ?F (ii, jj) (t ! ?W (ii, jj))"
  proof (rule updates_unique)
    show "\<forall>k' \<in> set ?ks. ?W k' = ?W (ii, jj) \<longrightarrow> k' = (ii, jj)"
      using assms(2,3) cell_index_inj [of _ TILE jj _ ii] by (auto simp add: tile_index)
  qed (simp_all add: assms tile_index distinct_product)
  then show ?thesis by (simp add: tile_index assms)
qed

lemma make_tile_result:
  assumes "length tile_a = TILE * TILE" and "length tile_b = TILE * TILE"
    and "\<forall>ii < TILE. \<forall>jj < TILE.
           u32 (i * n * TILE + k * TILE * TILE + ii * TILE + jj) < length a
         \<and> u32 (k * p * TILE + j * TILE * TILE + ii * TILE + jj) < length b"
  shows "\<exists>ta tb. make_tile a b n p i j k (tile_a, tile_b) = Some (ta, tb)
     \<and> length ta = TILE * TILE \<and> length tb = TILE * TILE
     \<and> (\<forall>ii < TILE. \<forall>jj < TILE.
           ta ! (ii * TILE + jj) = a ! u32 (i * n * TILE + k * TILE * TILE + ii * TILE + jj)
         \<and> tb ! (ii * TILE + jj) = b ! u32 (k * p * TILE + j * TILE * TILE + ii * TILE + jj))"
  by (simp add: make_tile_updates [OF assms] assms(1,2) tile_updates_nth)







subsection \<open>The tiled layout\<close>



lemma TILE_pos: "0 < TILE"
  by (simp add: TILE_def)











subsection \<open>Scratch tiles off the 32-byte boundary\<close>

text \<open>When one of the scratch tiles of the first block is not on a 32-byte boundary, the
  first call of the micro-kernel is undefined, and so is the whole product.\<close>

lemma for_loop_first_None:
  "lo < hi \<Longrightarrow> body lo s = None \<Longrightarrow> for_loop lo hi body s = None"
  by (simp add: for_loop_def for_each_def upt_conv_Cons)

lemma MatmulTiled_misaligned:
  fixes a :: "'a::{zero,plus,times} list"
  assumes "TILE \<le> m" and "TILE \<le> n" and "TILE \<le> p"
    and "TILE * TILE \<le> length a" and "TILE * TILE \<le> length b"
    and "\<not> (assume_aligned (tile_a_ptr alloc) (TILE * ELEM_SIZE)
           \<and> assume_aligned (tile_b_ptr alloc) (TILE * ELEM_SIZE)
           \<and> assume_aligned (tmp_res_ptr alloc 0 0) (TILE * ELEM_SIZE))"
  shows "MatmulTiled alloc a b out m n p = None"
proof -
  have pos: "0 < m div TILE" "0 < n div TILE" "0 < p div TILE"
    using assms(1-3) TILE_pos by (simp_all add: div_greater_zero_iff)
  let ?z = "replicate (TILE * TILE) (0 :: 'a)"
  have idx: "u32 (ii * TILE + jj) < TILE * TILE" if "ii < TILE" "jj < TILE" for ii jj
    using that u32_le [of "ii * TILE + jj"] cell_index_less [of ii TILE jj TILE] by simp
  have "\<forall>ii < TILE. \<forall>jj < TILE.
           u32 (0 * n * TILE + 0 * TILE * TILE + ii * TILE + jj) < length a
         \<and> u32 (0 * p * TILE + 0 * TILE * TILE + ii * TILE + jj) < length b"
    using idx assms(4,5) by (auto intro: less_le_trans)
  from make_tile_result [OF _ _ this, of ?z ?z]
  obtain ta tb where mk: "make_tile a b n p 0 0 0 (?z, ?z) = Some (ta, tb)"
    by auto
  have "tile_mul alloc a b n p 0 0 (?z, ?z, ?z) = None"
    unfolding tile_mul_def
    by (rule for_loop_first_None [OF pos(2)]) (simp add: mk AlignedDot_misaligned [OF assms(6)])
  then have "for_loop 0 (p div TILE) (\<lambda>j (tile_a, tile_b, out). do {
          (tile_a, tile_b, tmp_res) \<leftarrow>
            tile_mul alloc a b n p 0 j (tile_a, tile_b, replicate (TILE * TILE) 0);
          out \<leftarrow> write_tile tmp_res p 0 j out;
          Some (tile_a, tile_b, out)
        }) (?z, ?z, out) = None"
    by (intro for_loop_first_None [OF pos(3)]) simp
  then show ?thesis
    unfolding MatmulTiled_def by (simp add: for_loop_first_None [OF pos(1)])
qed

lemma MatmulTiled_vector_scratch:
  "MatmulTiled vector_scratch (map real [0..<128]) (map real [0..<256]) (replicate 128 0) 8 16 16 = None"
  by (rule MatmulTiled_misaligned)
     (simp_all add: TILE_def ELEM_SIZE_def vector_scratch_def assume_aligned_def del: upt_rec_numeral)

subsection \<open>Tiled against naive\<close>





section \<open>Multi-indices in row-major order\<close>

lemma in_shape_Nil [simp]: "in_shape [] ds \<longleftrightarrow> ds = []"
  by (auto simp add: in_shape_def)

lemma in_shape_Cons:
  "in_shape (s # ss) ds \<longleftrightarrow> (\<exists>d ds'. ds = d # ds' \<and> d < s \<and> in_shape ss ds')"
proof
  assume l: "in_shape (s # ss) ds"
  then obtain d ds' where ds: "ds = d # ds'" by (cases ds) (auto simp add: in_shape_def)
  from l have "\<forall>j < Suc (length ss). (d # ds') ! j < (s # ss) ! j" "length ds' = length ss"
    by (simp_all add: in_shape_def ds)
  then have "d < s" "\<forall>j < length ss. ds' ! j < ss ! j"
    by (auto simp add: nth_Cons split: nat.splits)
  with ds \<open>length ds' = length ss\<close> show "\<exists>d ds'. ds = d # ds' \<and> d < s \<and> in_shape ss ds'"
    by (simp add: in_shape_def)
next
  assume "\<exists>d ds'. ds = d # ds' \<and> d < s \<and> in_shape ss ds'"
  then show "in_shape (s # ss) ds"
    by (auto simp add: in_shape_def nth_Cons split: nat.splits)
qed

lemma flat_index_less: "in_shape ns ds \<Longrightarrow> flat_index ns ds < prod_list ns"
proof (induction ns arbitrary: ds)
  case Nil
  then show ?case by simp
next
  case (Cons s ss)
  then obtain d ds' where ds: "ds = d # ds'" "d < s" "in_shape ss ds'"
    by (auto simp add: in_shape_Cons)
  from Cons.IH [OF ds(3)] ds(2) have "d * prod_list ss + flat_index ss ds' < s * prod_list ss"
    by (rule cell_index_less [rotated])
  then show ?case by (simp add: ds)
qed

lemma flat_index_inj:
  "in_shape ns ds \<Longrightarrow> in_shape ns es \<Longrightarrow> flat_index ns ds = flat_index ns es \<Longrightarrow> ds = es"
proof (induction ns arbitrary: ds es)
  case Nil
  then show ?case by simp
next
  case (Cons s ss)
  from Cons.prems obtain d ds' e es' where
    ds: "ds = d # ds'" "in_shape ss ds'" and es: "es = e # es'" "in_shape ss es'"
    by (auto simp add: in_shape_Cons)
  from Cons.prems(3) have "d * prod_list ss + flat_index ss ds' = e * prod_list ss + flat_index ss es'"
    by (simp add: ds es)
  then have "d = e \<and> flat_index ss ds' = flat_index ss es'"
    by (rule cell_index_inj [OF flat_index_less [OF ds(2)] flat_index_less [OF es(2)]])
  with Cons.IH [OF ds(2) es(2)] show ?case by (simp add: ds es)
qed

lemma length_multi_indices [simp]: "length (multi_indices ns) = prod_list ns"
proof (induction ns)
  case Nil
  then show ?case by simp
next
  case (Cons s ss)
  have "length (concat (map (\<lambda>d. map ((#) d) (multi_indices ss)) [0..<k])) = k * prod_list ss" for k
    by (induction k) (simp_all add: Cons)
  then show ?case by simp
qed

lemma concat_blocks_nth:
  assumes "i < k * length xs"
  shows "concat (map (\<lambda>d. map (g d) xs) [0..<k]) ! i = g (i div length xs) (xs ! (i mod length xs))"
  using assms
proof (induction k)
  case 0
  then show ?case by simp
next
  case (Suc k)
  have len: "length (concat (map (\<lambda>d. map (g d) xs) [0..<k])) = k * length xs"
    by (induction k) simp_all
  show ?case
  proof (cases "i < k * length xs")
    case True
    with Suc.IH len show ?thesis by (simp add: nth_append)
  next
    case False
    then have ge: "k * length xs \<le> i" by simp
    from Suc.prems have lt: "i - k * length xs < length xs" using ge by simp
    have d: "i div length xs = k"
      using ge Suc.prems by (intro div_nat_eqI) (simp_all add: mult.commute)
    then have "i mod length xs = i - k * length xs"
      by (simp add: modulo_nat_def)
    with d False len lt show ?thesis by (simp add: nth_append)
  qed
qed

lemma multi_indices_nth_Cons:
  assumes "i < s * prod_list ss"
  shows "multi_indices (s # ss) ! i = (i div prod_list ss) # multi_indices ss ! (i mod prod_list ss)"
  using concat_blocks_nth [of i s "multi_indices ss" "(#)"] assms by simp

lemma multi_indices_nth:
  "i < prod_list ns \<Longrightarrow> in_shape ns (multi_indices ns ! i) \<and> flat_index ns (multi_indices ns ! i) = i"
proof (induction ns arbitrary: i)
  case Nil
  then show ?case by simp
next
  case (Cons s ss)
  then have i: "i < s * prod_list ss" by simp
  then have pos: "0 < prod_list ss" by (cases "prod_list ss") simp_all
  have q: "i div prod_list ss < s" using i by (simp add: less_mult_imp_div_less mult.commute)
  from Cons.IH [of "i mod prod_list ss"] pos
  have "in_shape ss (multi_indices ss ! (i mod prod_list ss))"
    "flat_index ss (multi_indices ss ! (i mod prod_list ss)) = i mod prod_list ss"
    by simp_all
  with q show ?case
    by (simp add: multi_indices_nth_Cons [OF i] in_shape_Cons del: multi_indices.simps)
qed

lemma multi_indices_of_flat_index:
  assumes "in_shape ns ds"
  shows "multi_indices ns ! flat_index ns ds = ds"
proof -
  note lt = flat_index_less [OF assms]
  from multi_indices_nth [OF lt] assms show ?thesis
    by (blast intro: flat_index_inj)
qed

lemma set_multi_indices: "set (multi_indices ns) = {ds. in_shape ns ds}"
proof (intro set_eqI iffI)
  fix ds assume "ds \<in> set (multi_indices ns)"
  then obtain i where "i < prod_list ns" "ds = multi_indices ns ! i"
    by (auto simp add: in_set_conv_nth)
  with multi_indices_nth [of i ns] show "ds \<in> {ds. in_shape ns ds}" by simp
next
  fix ds assume "ds \<in> {ds. in_shape ns ds}"
  then have "in_shape ns ds" by simp
  from flat_index_less [OF this] multi_indices_of_flat_index [OF this]
  show "ds \<in> set (multi_indices ns)" by (metis length_multi_indices nth_mem)
qed

lemma distinct_multi_indices: "distinct (multi_indices ns)"
proof (rule distinct_conv_nth [THEN iffD2], intro allI impI)
  fix i j assume "i < length (multi_indices ns)" "j < length (multi_indices ns)" "i \<noteq> j"
  then show "multi_indices ns ! i \<noteq> multi_indices ns ! j"
    using multi_indices_nth [of i ns] multi_indices_nth [of j ns] by auto
qed

section \<open>The walker enumerates the multi-indices\<close>

lemma flat_index_update:
  "j < length ds \<Longrightarrow> length ds = length ns \<Longrightarrow>
   flat_index ns (ds[j := v]) + ds ! j * prod_list (drop (Suc j) ns)
     = flat_index ns ds + v * prod_list (drop (Suc j) ns)"
proof (induction ns arbitrary: ds j)
  case Nil
  then show ?case by simp
next
  case (Cons s ss)
  then obtain d ds' where ds: "ds = d # ds'" by (cases ds) auto
  show ?case
  proof (cases j)
    case 0
    then show ?thesis by (simp add: ds)
  next
    case (Suc j')
    with Cons.prems ds have "j' < length ds'" "length ds' = length ss" by simp_all
    from Cons.IH [OF this] show ?thesis by (simp add: ds Suc)
  qed
qed

lemma flat_index_final:
  "length ds = length ns \<Longrightarrow> \<forall>l < length ns. ds ! l + 1 = ns ! l \<Longrightarrow>
   flat_index ns ds + 1 = prod_list ns"
proof (induction ns arbitrary: ds)
  case Nil
  then show ?case by simp
next
  case (Cons s ss)
  then obtain d ds' where ds: "ds = d # ds'" by (cases ds) auto
  from Cons.prems(2) have "d + 1 = s" "\<forall>l < length ss. ds' ! l + 1 = ss ! l"
    by (auto simp add: ds nth_Cons split: nat.splits)
  moreover from this(2) Cons.prems(1) have "flat_index ss ds' + 1 = prod_list ss"
    by (intro Cons.IH) (simp_all add: ds)
  ultimately have "flat_index (s # ss) ds + 1 = d * prod_list ss + prod_list ss"
    by (simp add: ds)
  with \<open>d + 1 = s\<close> show ?case by auto
qed

lemma to_nats_update: "to_nats (v[j := x]) = (to_nats v)[j := nat (sint x)]"
  by (simp add: to_nats_def map_update)

lemma to_nats_nth: "j < length v \<Longrightarrow> to_nats v ! j = nat (sint (v ! j))"
  by (simp add: to_nats_def)

lemma length_to_nats [simp]: "length (to_nats v) = length v"
  by (simp add: to_nats_def)

lemma valid_in_shape: "valid_indices shape idx \<Longrightarrow> in_shape (to_nats shape) (to_nats idx)"
  by (auto simp add: valid_indices_def in_shape_def to_nats_nth)

lemma sint_succ:
  assumes "sint (w :: int32) < 2 ^ 31 - 1"
  shows "sint (w + 1) = sint w + 1"
proof -
  have "sint (word_of_int (sint w + 1) :: int32) = sint w + 1"
    using assms sint_int32_range(1) [of w] by (intro sint_i32) linarith+
  then show ?thesis by simp
qed

lemma valid_indices_incr:
  assumes "valid_indices shape idx" and "j < length idx"
    and "sint (idx ! j) < sint (shape ! j) - 1"
  shows "valid_indices shape (idx[j := idx ! j + 1])"
proof -
  have s: "sint (idx ! j + 1) = sint (idx ! j) + 1"
    using assms(3) sint_int32_range(2) [of "shape ! j"] by (intro sint_succ) linarith
  have "0 \<le> sint (idx[j := idx ! j + 1] ! i) \<and> sint (idx[j := idx ! j + 1] ! i) < sint (shape ! i)"
    if "i < length idx" for i
  proof (cases "i = j")
    case True
    with assms s show ?thesis by (simp add: valid_indices_def)
  next
    case False
    with assms(1) that show ?thesis by (simp add: valid_indices_def)
  qed
  with assms(1) show ?thesis by (simp add: valid_indices_def)
qed

lemma updateIndices_from_next:
  assumes "valid_indices shape idx" and "j < length idx"
    and "\<exists>l \<le> j. sint (idx ! l) < sint (shape ! l) - 1"
  shows "\<exists>idx'. updateIndices_from shape idx j = Some idx' \<and> valid_indices shape idx'
     \<and> flat_index (to_nats shape) (to_nats idx')
         = flat_index (to_nats shape) (to_nats idx) + prod_list (drop (Suc j) (to_nats shape))"
  using assms
proof (induction j arbitrary: idx)
  case 0
  then have lt: "sint (idx ! 0) < sint (shape ! 0) - 1" by simp
  from 0 have v: "length idx = length shape" "0 \<le> sint (idx ! 0)" "sint (idx ! 0) < sint (shape ! 0)"
    by (simp_all add: valid_indices_def)
  have s: "sint (idx ! 0 + 1) = sint (idx ! 0) + 1"
    using lt sint_int32_range(2) [of "shape ! 0"] by (intro sint_succ) linarith
  have run: "updateIndices_from shape idx 0 = Some (idx[0 := idx ! 0 + 1])"
    using 0 v lt by (subst updateIndices_from_step) simp_all
  have valid: "valid_indices shape (idx[0 := idx ! 0 + 1])"
    using 0(1,2) lt by (rule valid_indices_incr)
  have "flat_index (to_nats shape) ((to_nats idx)[0 := nat (sint (idx ! 0)) + 1])
          + to_nats idx ! 0 * prod_list (drop (Suc 0) (to_nats shape))
      = flat_index (to_nats shape) (to_nats idx) + (nat (sint (idx ! 0)) + 1) * prod_list (drop (Suc 0) (to_nats shape))"
    using 0(2) v(1) by (intro flat_index_update) simp_all
  then have "flat_index (to_nats shape) (to_nats (idx[0 := idx ! 0 + 1]))
      = flat_index (to_nats shape) (to_nats idx) + prod_list (drop (Suc 0) (to_nats shape))"
    using 0(2) v(2) by (simp add: to_nats_update s to_nats_nth nat_add_distrib)
  with run valid show ?case by simp
next
  case (Suc j)
  from Suc.prems have v: "length idx = length shape" "0 \<le> sint (idx ! Suc j)"
    "sint (idx ! Suc j) < sint (shape ! Suc j)"
    by (simp_all add: valid_indices_def)
  let ?P = "prod_list (drop (Suc (Suc j)) (to_nats shape))"
  show ?case
  proof (cases "sint (idx ! Suc j) < sint (shape ! Suc j) - 1")
    case True
    have s: "sint (idx ! Suc j + 1) = sint (idx ! Suc j) + 1"
      using True sint_int32_range(2) [of "shape ! Suc j"] by (intro sint_succ) linarith
    have run: "updateIndices_from shape idx (Suc j) = Some (idx[Suc j := idx ! Suc j + 1])"
      using Suc.prems v True by (subst updateIndices_from_step) simp_all
    have valid: "valid_indices shape (idx[Suc j := idx ! Suc j + 1])"
      using Suc.prems(1,2) True by (rule valid_indices_incr)
    have "flat_index (to_nats shape) ((to_nats idx)[Suc j := nat (sint (idx ! Suc j)) + 1])
            + to_nats idx ! Suc j * ?P
        = flat_index (to_nats shape) (to_nats idx) + (nat (sint (idx ! Suc j)) + 1) * ?P"
      using Suc.prems(2) v(1) by (intro flat_index_update) simp_all
    then have "flat_index (to_nats shape) (to_nats (idx[Suc j := idx ! Suc j + 1]))
        = flat_index (to_nats shape) (to_nats idx) + ?P"
      using Suc.prems(2) v(2) by (simp add: to_nats_update s to_nats_nth nat_add_distrib)
    with run valid show ?thesis by simp
  next
    case False
    with v have top: "sint (idx ! Suc j) = sint (shape ! Suc j) - 1" by simp
    have run: "updateIndices_from shape idx (Suc j) = updateIndices_from shape (idx[Suc j := 0]) j"
      using Suc.prems v False by (subst updateIndices_from_step) simp_all
    from Suc.prems(3) obtain l where l': "l \<le> Suc j" "sint (idx ! l) < sint (shape ! l) - 1"
      by blast
    with top have "l \<noteq> Suc j" by auto
    with l' have l: "l \<le> j" "sint (idx ! l) < sint (shape ! l) - 1" by simp_all
    then have ex: "\<exists>l \<le> j. sint (idx[Suc j := 0] ! l) < sint (shape ! l) - 1"
      by (intro exI [of _ l]) simp
    from Suc.IH [OF valid_indices_reset [OF Suc.prems(1,2)] _ ex] Suc.prems(2)
    obtain idx' where idx': "updateIndices_from shape (idx[Suc j := 0]) j = Some idx'"
      "valid_indices shape idx'"
      "flat_index (to_nats shape) (to_nats idx')
         = flat_index (to_nats shape) (to_nats (idx[Suc j := 0])) + prod_list (drop (Suc j) (to_nats shape))"
      by auto
    have drop: "prod_list (drop (Suc j) (to_nats shape)) = to_nats shape ! Suc j * ?P"
      using Suc.prems(2) v(1) by (simp flip: Cons_nth_drop_Suc)
    have sj: "to_nats shape ! Suc j = to_nats idx ! Suc j + 1"
      using Suc.prems(2) v top by (simp add: to_nats_nth)
    have "flat_index (to_nats shape) ((to_nats idx)[Suc j := 0]) + to_nats idx ! Suc j * ?P
        = flat_index (to_nats shape) (to_nats idx) + 0 * ?P"
      using Suc.prems(2) v(1) by (intro flat_index_update) simp_all
    then have "flat_index (to_nats shape) (to_nats (idx[Suc j := 0])) + to_nats idx ! Suc j * ?P
        = flat_index (to_nats shape) (to_nats idx)"
      by (simp add: to_nats_update)
    with idx'(3) have "flat_index (to_nats shape) (to_nats idx')
        = flat_index (to_nats shape) (to_nats idx) + ?P"
      by (simp add: drop sj)
    with run idx'(1,2) show ?thesis by simp
  qed
qed

lemma updateIndices_next:
  assumes "valid_indices shape idx" and "1 \<le> length idx" and "length idx < 2 ^ 64"
    and "flat_index (to_nats shape) (to_nats idx) + 1 < prod_list (to_nats shape)"
  shows "\<exists>idx'. updateIndices shape idx = Some idx' \<and> valid_indices shape idx'
     \<and> flat_index (to_nats shape) (to_nats idx') = flat_index (to_nats shape) (to_nats idx) + 1"
proof -
  from assms(2) have pos: "0 < length idx" by (cases idx) simp_all
  have len: "length idx = length shape" using assms(1) by (simp add: valid_indices_def)
  have ex: "\<exists>l \<le> length idx - 1. sint (idx ! l) < sint (shape ! l) - 1"
  proof (rule ccontr)
    assume neg: "\<not> ?thesis"
    have "sint (idx ! l) = sint (shape ! l) - 1" if l: "l < length idx" for l
    proof -
      from l have "l \<le> length idx - 1" by simp
      with neg have "\<not> sint (idx ! l) < sint (shape ! l) - 1" by blast
      moreover from assms(1) l have "sint (idx ! l) < sint (shape ! l)"
        by (simp add: valid_indices_def)
      ultimately show ?thesis by simp
    qed
    then have "\<forall>l < length (to_nats shape). to_nats idx ! l + 1 = to_nats shape ! l"
      using assms(1) by (auto simp add: to_nats_nth len valid_indices_def)
    then have "flat_index (to_nats shape) (to_nats idx) + 1 = prod_list (to_nats shape)"
      by (intro flat_index_final) (simp_all add: len)
    with assms(4) show False by simp
  qed
  have "drop (Suc (length idx - 1)) (to_nats shape) = []"
    using pos by (simp add: len)
  with updateIndices_from_next [OF assms(1) _ ex] pos show ?thesis
    unfolding updateIndices_def u64_pred [OF pos assms(3)] by simp
qed

lemma updateIndices_defined:
  assumes "valid_indices shape idx" and "1 \<le> length idx" and "length idx < 2 ^ 64"
  shows "\<exists>idx'. updateIndices shape idx = Some idx'"
proof -
  from assms(2) have pos: "0 < length idx" by (cases idx) simp_all
  show ?thesis
    unfolding updateIndices_def u64_pred [OF pos assms(3)]
    using assms(1) pos by (intro updateIndices_from_defined) simp_all
qed

lemma getLocation_eq:
  assumes "length idx \<le> length strides" and "offset < 2 ^ 64"
    and "\<forall>l < length idx. - (2 ^ 31) \<le> sint (strides ! l) * sint (idx ! l)
           \<and> sint (strides ! l) * sint (idx ! l) < 2 ^ 31"
  shows "getLocation strides offset idx =
     Some (nat ((int offset + (\<Sum>l < length idx. sint (strides ! l) * sint (idx ! l))) mod 2 ^ 64))"
proof -
  let ?S = "\<lambda>k. int offset + (\<Sum>l < k. sint (strides ! l) * sint (idx ! l))"
  let ?body = "\<lambda>i loc. do {
       s \<leftarrow> load strides i;
       d \<leftarrow> load idx i;
       prod \<leftarrow> i32 (sint s * sint d);
       Some (nat ((int loc + sint prod) mod 2 ^ 64)) }"
  have "\<exists>s'. for_loop 0 (length idx) ?body offset = Some s' \<and> s' = nat (?S (length idx) mod 2 ^ 64)"
  proof (rule for_loop_rule [where I = "\<lambda>k loc. loc = nat (?S k mod 2 ^ 64)"])
    show "offset = nat (?S 0 mod 2 ^ 64)"
      using assms(2) by (simp add: nat_mod_distrib nat_power_eq)
  next
    fix k loc assume k: "k < length idx" and loc: "loc = nat (?S k mod 2 ^ 64)"
    let ?p = "sint (strides ! k) * sint (idx ! k)"
    from assms(3) k have r: "- (2 ^ 31) \<le> ?p" "?p < 2 ^ 31" by simp_all
    have p: "i32 ?p = Some (word_of_int ?p)" "sint (word_of_int ?p :: int32) = ?p"
      using r by (simp_all only: i32_Some sint_i32)
    have "int loc = ?S k mod 2 ^ 64" by (simp add: loc)
    then have "(int loc + ?p) mod 2 ^ 64 = ?S (Suc k) mod 2 ^ 64"
      by (simp add: mod_add_left_eq add.assoc)
    with k assms(1) p show "\<exists>t'. ?body k loc = Some t' \<and> t' = nat (?S (Suc k) mod 2 ^ 64)"
      by (simp add: load_def del: sum.lessThan_Suc)
  qed simp
  then show ?thesis by (simp add: getLocation_def)
qed

lemma getLocation_valid:
  assumes ok: "view_ok sz shape strides offset"
    and v: "valid_indices shape idx" and e: "to_nats idx \<in> set (multi_indices (to_nats shape))"
  shows "getLocation strides offset idx = Some (nat (location strides offset (to_nats idx)))"
    and "nat (location strides offset (to_nats idx)) < sz"
proof -
  have len: "length idx = length shape" "length strides = length shape"
    using ok v by (simp_all add: view_ok_def valid_indices_def)
  have d: "sint (idx ! l) = int (to_nats idx ! l)" "to_nats idx ! l < to_nats shape ! l"
    if "l < length idx" for l
  proof -
    from v that have "0 \<le> sint (idx ! l)" "sint (idx ! l) < sint (shape ! l)"
      by (simp_all add: valid_indices_def)
    with that len show "sint (idx ! l) = int (to_nats idx ! l)" "to_nats idx ! l < to_nats shape ! l"
      by (simp_all add: to_nats_nth)
  qed
  have "(\<Sum>l < length idx. sint (strides ! l) * sint (idx ! l))
      = (\<Sum>l < length idx. sint (strides ! l) * int (to_nats idx ! l))"
    by (rule sum.cong) (simp_all add: d)
  then have loc: "int offset + (\<Sum>l < length idx. sint (strides ! l) * sint (idx ! l))
      = location strides offset (to_nats idx)"
    by (simp add: location_def)
  from ok e have b: "0 \<le> location strides offset (to_nats idx)"
    "location strides offset (to_nats idx) < int sz" "sz \<le> 2 ^ 64"
    by (simp_all add: view_ok_def)
  from b(3) have "int sz \<le> int (2 ^ 64)" by (simp only: of_nat_le_iff)
  then have "int sz \<le> 2 ^ 64" by simp
  with b(2) have "location strides offset (to_nats idx) < 2 ^ 64" by linarith
  with b(1) have m: "location strides offset (to_nats idx) mod 2 ^ 64 = location strides offset (to_nats idx)"
    by simp
  have "getLocation strides offset idx =
     Some (nat ((int offset + (\<Sum>l < length idx. sint (strides ! l) * sint (idx ! l))) mod 2 ^ 64))"
  proof (rule getLocation_eq)
    show "\<forall>l < length idx. - (2 ^ 31) \<le> sint (strides ! l) * sint (idx ! l)
           \<and> sint (strides ! l) * sint (idx ! l) < 2 ^ 31"
      using ok d len by (simp add: view_ok_def)
  qed (use ok len in \<open>simp_all add: view_ok_def\<close>)
  then show "getLocation strides offset idx = Some (nat (location strides offset (to_nats idx)))"
    by (simp only: loc m)
  from b show "nat (location strides offset (to_nats idx)) < sz" by simp
qed

lemma walker_at_start:
  assumes "view_ok sz shape strides offset"
  shows "walker_at shape 0 (replicate (length shape) 0)"
proof -
  let ?z = "replicate (length shape) (0 :: int32)"
  have v: "valid_indices shape ?z"
    using assms by (simp add: valid_indices_def view_ok_def)
  have z: "to_nats ?z = replicate (length shape) 0"
    by (simp add: to_nats_def)
  have "flat_index ns (replicate (length ns) 0) = 0" for ns
    by (induction ns) simp_all
  from this [of "to_nats shape"] multi_indices_of_flat_index [OF valid_in_shape [OF v]]
  have "multi_indices (to_nats shape) ! 0 = to_nats ?z" by (simp add: z)
  with v show ?thesis by (simp add: walker_at_def)
qed

lemma walker_at_step:
  assumes ok: "view_ok sz shape strides offset"
    and i: "i < prod_list (to_nats shape)" and w: "walker_at shape i idx"
  shows "getLocation strides offset idx =
           Some (nat (location strides offset (multi_indices (to_nats shape) ! i)))"
    and "nat (location strides offset (multi_indices (to_nats shape) ! i)) < sz"
    and "\<exists>idx'. updateIndices shape idx = Some idx' \<and> walker_at shape (Suc i) idx'"
proof -
  let ?ns = "to_nats shape"
  from w i have v: "valid_indices shape idx" and e: "to_nats idx = multi_indices ?ns ! i"
    by (simp_all add: walker_at_def)
  from i have mem: "to_nats idx \<in> set (multi_indices ?ns)" by (simp add: e)
  from getLocation_valid [OF ok v mem]
  show "getLocation strides offset idx = Some (nat (location strides offset (multi_indices ?ns ! i)))"
    "nat (location strides offset (multi_indices ?ns ! i)) < sz"
    by (simp_all add: e)
  have rank: "1 \<le> length idx" "length idx < 2 ^ 64"
    using ok v by (simp_all add: view_ok_def valid_indices_def)
  have flat: "flat_index ?ns (to_nats idx) = i"
    using multi_indices_nth [OF i] by (simp add: e)
  show "\<exists>idx'. updateIndices shape idx = Some idx' \<and> walker_at shape (Suc i) idx'"
  proof (cases "Suc i < prod_list ?ns")
    case True
    with flat have "flat_index ?ns (to_nats idx) + 1 < prod_list ?ns" by simp
    from updateIndices_next [OF v rank this] flat
    obtain idx' where idx': "updateIndices shape idx = Some idx'" "valid_indices shape idx'"
      "flat_index ?ns (to_nats idx') = Suc i"
      by auto
    from multi_indices_of_flat_index [OF valid_in_shape [OF idx'(2)]] idx'(3)
    have "multi_indices ?ns ! Suc i = to_nats idx'" by simp
    with idx' show ?thesis by (simp add: walker_at_def)
  next
    case False
    with updateIndices_defined [OF v rank] show ?thesis by (auto simp add: walker_at_def)
  qed
qed

lemma Compact_eq:
  assumes ok: "view_ok (length a) shape strides offset"
    and size: "length out = prod_list (to_nats shape)"
  shows "Compact a out shape strides offset =
     Some (map (\<lambda>idx. a ! nat (location strides offset idx)) (multi_indices (to_nats shape)))"
proof -
  let ?E = "multi_indices (to_nats shape)"
  let ?L = "\<lambda>idx. nat (location strides offset idx)"
  let ?I = "\<lambda>i (s :: 'a list \<times> int32 list). case s of (t, idx) \<Rightarrow>
      length t = length out \<and> (\<forall>x < i. t ! x = a ! ?L (?E ! x)) \<and> walker_at shape i idx"
  let ?body = "\<lambda>i (out, indices_vector). do {
          loc \<leftarrow> getLocation strides offset indices_vector;
          v \<leftarrow> load a loc;
          out \<leftarrow> store out i v;
          indices_vector \<leftarrow> updateIndices shape indices_vector;
          Some (out, indices_vector) }"
  have "\<exists>s'. for_loop 0 (length out) ?body (out, replicate (length shape) 0) = Some s' \<and> ?I (length out) s'"
  proof (rule for_loop_rule [where I = ?I])
    show "?I 0 (out, replicate (length shape) 0)"
      using walker_at_start [OF ok] by simp
  next
    fix i and s :: "'a list \<times> int32 list"
    assume i: "i < length out" and I: "?I i s"
    obtain t idx where s: "s = (t, idx)" by (cases s)
    from I s have len: "length t = length out" and filled: "\<forall>x < i. t ! x = a ! ?L (?E ! x)"
      and w: "walker_at shape i idx"
      by simp_all
    from i size have i': "i < prod_list (to_nats shape)" by simp
    from walker_at_step [OF ok i' w] obtain idx' where
      loc: "getLocation strides offset idx = Some (?L (?E ! i))" "?L (?E ! i) < length a"
      and up: "updateIndices shape idx = Some idx'" "walker_at shape (Suc i) idx'"
      by blast
    have "\<forall>x < Suc i. t[i := a ! ?L (?E ! i)] ! x = a ! ?L (?E ! x)"
      using filled i len by (simp add: nth_list_update less_Suc_eq)
    with loc up i len s show "\<exists>t'. ?body i s = Some t' \<and> ?I (Suc i) t'"
      by (simp add: load_def store_def)
  qed simp
  then obtain t idx where run: "for_loop 0 (length out) ?body (out, replicate (length shape) 0) = Some (t, idx)"
    and len: "length t = length out" and cells: "\<forall>x < length out. t ! x = a ! ?L (?E ! x)"
    by auto
  have "t = map (\<lambda>idx. a ! ?L idx) ?E"
    using len cells size by (intro nth_equalityI) simp_all
  with run show ?thesis by (simp add: Compact_def)
qed

lemma EwiseSetitem_back:
  assumes ok: "view_ok (length B) shape strides offset"
    and c: "packed = map (\<lambda>idx. B ! nat (location strides offset idx)) (multi_indices (to_nats shape))"
  shows "EwiseSetitem packed B shape strides offset = Some B"
proof -
  let ?E = "multi_indices (to_nats shape)"
  let ?L = "\<lambda>idx. nat (location strides offset idx)"
  let ?I = "\<lambda>i (s :: 'a list \<times> int32 list). case s of (t, idx) \<Rightarrow> t = B \<and> walker_at shape i idx"
  let ?body = "\<lambda>i (out, indices_vector). do {
          loc \<leftarrow> getLocation strides offset indices_vector;
          v \<leftarrow> load packed i;
          out \<leftarrow> store out loc v;
          indices_vector \<leftarrow> updateIndices shape indices_vector;
          Some (out, indices_vector) }"
  have "\<exists>s'. for_loop 0 (length packed) ?body (B, replicate (length shape) 0) = Some s' \<and> ?I (length packed) s'"
  proof (rule for_loop_rule [where I = ?I])
    show "?I 0 (B, replicate (length shape) 0)"
      using walker_at_start [OF ok] by simp
  next
    fix i and s :: "'a list \<times> int32 list"
    assume i: "i < length packed" and I: "?I i s"
    obtain t idx where s: "s = (t, idx)" by (cases s)
    from I s have t: "t = B" and w: "walker_at shape i idx" by simp_all
    from i c have i': "i < prod_list (to_nats shape)" by simp
    from walker_at_step [OF ok i' w] obtain idx' where
      loc: "getLocation strides offset idx = Some (?L (?E ! i))" "?L (?E ! i) < length B"
      and up: "updateIndices shape idx = Some idx'" "walker_at shape (Suc i) idx'"
      by blast
    have v: "packed ! i = B ! ?L (?E ! i)" using i' by (simp add: c)
    with loc up i s t show "\<exists>t'. ?body i s = Some t' \<and> ?I (Suc i) t'"
      by (simp add: load_def store_def)
  qed simp
  then show ?thesis by (auto simp add: EwiseSetitem_def)
qed

section \<open>Compact and the round trip\<close>

text \<open>
  Claim C2, as stated, fails when a product \<^verbatim>\<open>strides[j] * indices_vector[j]\<close> does not fit
  \<^verbatim>\<open>int32_t\<close>, although the location it contributes to lies inside the buffer.  For the
  shape \<open>[3]\<close>, strides \<open>[2 ^ 30]\<close>, offset \<open>0\<close> and a buffer of \<open>2 ^ 31 + 1\<close> elements the
  locations \<open>0\<close>, \<open>2 ^ 30\<close> and \<open>2 ^ 31\<close> are all inside the buffer, but the third product
  \<open>2 ^ 30 * 2\<close> overflows: the behaviour is undefined, and no element is delivered for the
  multi-index \<open>[2]\<close>.
\<close>

theorem Compact_counterexample:
  "Compact (replicate 2147483649 0) (replicate 3 5) [3] [1073741824] 0 = (None :: real list option)
   \<and> to_nats [3] = [3] \<and> multi_indices [3] = [[0], [1], [2]]
   \<and> location [1073741824] 0 [0] = 0
   \<and> location [1073741824] 0 [1] = 1073741824
   \<and> location [1073741824] 0 [2] = 2147483648
   \<and> length (replicate 2147483649 (0 :: real)) = 2147483649"
  by (simp add: Compact_def getLocation_def updateIndices_def updateIndices_from.simps
      for_loop_def load_def store_def i32_def u64_def to_nats_def location_def upt_conv_Cons)

text \<open>
  Claim C2, amended.  For a shape of rank at least 1 with positive axis sizes, strides of
  the same rank and an offset such that \<open>out.size\<close> is the product of the shape, every
  location \<open>offset + \<Sum> strides[j] * idx[j]\<close> lies inside \<open>a\<close>, and every product
  \<open>strides[j] * d\<close> with \<open>d < shape[j]\<close> fits \<^verbatim>\<open>int32_t\<close>, \<^verbatim>\<open>Compact\<close> returns the buffer
  whose element \<open>i\<close> is \<open>a\<close> at the location of the \<open>i\<close>-th multi-index, where the
  multi-indices are listed in row-major order, each valid multi-index exactly once.  The
  input \<open>a\<close> is a \<^verbatim>\<open>const\<close> reference that the kernel only reads; the model returns the
  new \<open>out\<close> alone.  (Rank, offset and \<open>a.size\<close> are \<^verbatim>\<open>size_t\<close> values.)
\<close>

theorem Compact_gathers:
  assumes "1 \<le> length shape" and "length strides = length shape"
    and "\<forall>s \<in> set shape. 0 < sint s"
    and "length out = prod_list (to_nats shape)"
    and "\<forall>idx \<in> set (multi_indices (to_nats shape)).
           0 \<le> location strides offset idx \<and> location strides offset idx < int (length a)"
    and "\<forall>j < length shape. \<forall>d < to_nats shape ! j.
           - (2 ^ 31) \<le> sint (strides ! j) * int d \<and> sint (strides ! j) * int d < 2 ^ 31"
    and "length shape < 2 ^ 64" and "offset < 2 ^ 64" and "length a \<le> 2 ^ 64"
  shows "Compact a out shape strides offset =
       Some (map (\<lambda>idx. a ! nat (location strides offset idx)) (multi_indices (to_nats shape)))
     \<and> distinct (multi_indices (to_nats shape))
     \<and> set (multi_indices (to_nats shape)) = {idx. in_shape (to_nats shape) idx}"
proof -
  have "view_ok (length a) shape strides offset"
    unfolding view_ok_def using assms by blast
  from Compact_eq [OF this assms(4)] show ?thesis
    by (simp add: distinct_multi_indices set_multi_indices)
qed

theorem Compact_gathers_witness:
  "Compact [10, 20, 30, 40, 50, 60 :: real] [0, 0, 0, 0] [2, 2] [1, 3] 1 =
       Some (map (\<lambda>idx. [10, 20, 30, 40, 50, 60] ! nat (location [1, 3] 1 idx))
               (multi_indices (to_nats [2, 2])))
     \<and> distinct (multi_indices (to_nats [2, 2]))
     \<and> set (multi_indices (to_nats [2, 2])) = {idx. in_shape (to_nats [2, 2]) idx}"
proof -
  have h: "1 \<le> length [2, 2 :: int32]" "length [1, 3 :: int32] = length [2, 2 :: int32]"
    "\<forall>s \<in> set [2, 2 :: int32]. 0 < sint s"
    "length [0, 0, 0, 0 :: real] = prod_list (to_nats [2, 2])"
    "\<forall>idx \<in> set (multi_indices (to_nats [2, 2])).
       0 \<le> location [1, 3] 1 idx \<and> location [1, 3] 1 idx < int (length [10, 20, 30, 40, 50, 60 :: real])"
    "\<forall>j < length [2, 2 :: int32]. \<forall>d < to_nats [2, 2] ! j.
       - (2 ^ 31) \<le> sint ([1, 3 :: int32] ! j) * int d \<and> sint ([1, 3 :: int32] ! j) * int d < 2 ^ 31"
    by (simp_all add: to_nats_def location_def less_Suc_eq all_conj_distrib)
  have r: "length [2, 2 :: int32] < 2 ^ 64" "(1 :: nat) < 2 ^ 64"
    "length [10, 20, 30, 40, 50, 60 :: real] \<le> 2 ^ 64"
    by simp_all
  from Compact_gathers [OF h r] show ?thesis .
qed

text \<open>
  Claim C3, as stated, fails on the same view: the locations \<open>0\<close>, \<open>2 ^ 30\<close>, \<open>2 ^ 31\<close> lie
  inside the buffer of \<open>2 ^ 31 + 1\<close> elements, but \<^verbatim>\<open>Compact\<close> overflows \<^verbatim>\<open>int32_t\<close> on
  the third multi-index, so the round trip has no defined result.
\<close>

theorem round_trip_counterexample:
  "round_trip (replicate 2147483649 0) (replicate 3 0) [3] [1073741824] 0 = (None :: real list option)
   \<and> to_nats [3] = [3] \<and> multi_indices [3] = [[0], [1], [2]]
   \<and> location [1073741824] 0 [0] = 0
   \<and> location [1073741824] 0 [1] = 1073741824
   \<and> location [1073741824] 0 [2] = 2147483648
   \<and> length (replicate 2147483649 (0 :: real)) = 2147483649"
  by (simp add: round_trip_def Compact_def getLocation_def updateIndices_def updateIndices_from.simps
      for_loop_def load_def store_def i32_def u64_def to_nats_def location_def upt_conv_Cons)

text \<open>
  Claim C3, amended.  For a view over a buffer \<open>B\<close> with a shape of rank at least 1 and
  positive axis sizes, whose locations all lie inside \<open>B\<close> and whose products
  \<open>strides[j] * d\<close> with \<open>d < shape[j]\<close> all fit \<^verbatim>\<open>int32_t\<close>: \<^verbatim>\<open>Compact\<close> of the view into
  a fresh buffer of \<open>product(shape)\<close> elements followed by \<^verbatim>\<open>EwiseSetitem\<close> of that buffer
  through the same view returns \<open>B\<close> itself: every element of \<open>B\<close> has its original value,
  whether the view reaches its location once, several times (aliasing strides) or not at
  all.
\<close>

theorem round_trip_unchanged:
  assumes "1 \<le> length shape" and "length strides = length shape"
    and "\<forall>s \<in> set shape. 0 < sint s"
    and "length fresh = prod_list (to_nats shape)"
    and "\<forall>idx \<in> set (multi_indices (to_nats shape)).
           0 \<le> location strides offset idx \<and> location strides offset idx < int (length B)"
    and "\<forall>j < length shape. \<forall>d < to_nats shape ! j.
           - (2 ^ 31) \<le> sint (strides ! j) * int d \<and> sint (strides ! j) * int d < 2 ^ 31"
    and "length shape < 2 ^ 64" and "offset < 2 ^ 64" and "length B \<le> 2 ^ 64"
  shows "round_trip B fresh shape strides offset = Some B"
proof -
  have ok: "view_ok (length B) shape strides offset"
    unfolding view_ok_def using assms by blast
  from Compact_eq [OF ok assms(4)] EwiseSetitem_back [OF ok refl] show ?thesis
    by (simp add: round_trip_def)
qed


theorem round_trip_unchanged_witness:
  "round_trip [10, 20, 30, 40, 50, 60 :: real] [0, 0, 0, 0] [2, 2] [1, 3] 1
     = Some [10, 20, 30, 40, 50, 60]"
proof -
  have h: "1 \<le> length [2, 2 :: int32]" "length [1, 3 :: int32] = length [2, 2 :: int32]"
    "\<forall>s \<in> set [2, 2 :: int32]. 0 < sint s"
    "length [0, 0, 0, 0 :: real] = prod_list (to_nats [2, 2])"
    "\<forall>idx \<in> set (multi_indices (to_nats [2, 2])).
       0 \<le> location [1, 3] 1 idx \<and> location [1, 3] 1 idx < int (length [10, 20, 30, 40, 50, 60 :: real])"
    "\<forall>j < length [2, 2 :: int32]. \<forall>d < to_nats [2, 2] ! j.
       - (2 ^ 31) \<le> sint ([1, 3 :: int32] ! j) * int d \<and> sint ([1, 3 :: int32] ! j) * int d < 2 ^ 31"
    by (simp_all add: to_nats_def location_def less_Suc_eq all_conj_distrib)
  have r: "length [2, 2 :: int32] < 2 ^ 64" "(1 :: nat) < 2 ^ 64"
    "length [10, 20, 30, 40, 50, 60 :: real] \<le> 2 ^ 64"
    by simp_all
  from round_trip_unchanged [OF h r] show ?thesis .
qed

end
